theory Spec2Isabelle
  imports Main
begin

section \<open>Data model\<close>

text \<open>
  The tables of \<^verbatim>\<open>check_na.py\<close> are pandas data frames read from Excel sheets. A cell
  is a Python int, a Python str or the missing marker (pandas reads a blank cell as NaN).
  Strings are ASCII character lists; cells holding floats other than NaN and text beyond
  ASCII are not part of this model.

  A data frame is the ordered list of its columns, each a name with the cells of its
  rows; \<^verbatim>\<open>read_excel\<close> makes the header names unique. The exceptions the code can
  raise on such tables are the values of \<open>error\<close>.
\<close>

datatype cell = IntV int | StrV string | NaN

datatype error = KeyError | IndexError | TypeError

type_synonym table = "(string \<times> cell list) list"

definition columns :: "table \<Rightarrow> string list" where
  \<comment> \<open>\<^verbatim>\<open>df.columns\<close>\<close>
  "columns t = map fst t"

definition get_col :: "table \<Rightarrow> string \<Rightarrow> error + cell list" where
  \<comment> \<open>\<^verbatim>\<open>df[name]\<close>: KeyError when no column carries the name\<close>
  "get_col t name = (case map_of t name of None \<Rightarrow> Inl KeyError | Some vs \<Rightarrow> Inr vs)"

fun set_col :: "table \<Rightarrow> string \<Rightarrow> cell list \<Rightarrow> table" where
  \<comment> \<open>\<^verbatim>\<open>df[name] = values\<close> for a column that exists: same place, new cells\<close>
  "set_col [] name vs = []"
| "set_col ((n, ws) # t) name vs =
     (if n = name then (n, vs) # t else (n, ws) # set_col t name vs)"

definition select_rows :: "bool list \<Rightarrow> 'a list \<Rightarrow> 'a list" where
  \<comment> \<open>boolean indexing \<^verbatim>\<open>series[mask]\<close>\<close>
  "select_rows m vs = map snd (filter fst (zip m vs))"

definition nrows :: "table \<Rightarrow> nat" where
  "nrows t = (case t of [] \<Rightarrow> 0 | (n, vs) # rest \<Rightarrow> length vs)"

section \<open>Python string operations\<close>

definition is_space :: "char \<Rightarrow> bool" where
  \<comment> \<open>\<^verbatim>\<open>str.isspace\<close> and the regex class \<^verbatim>\<open>\s\<close>, on ASCII\<close>
  "is_space c = (let n = (of_char c :: nat) in (9 \<le> n \<and> n \<le> 13) \<or> (28 \<le> n \<and> n \<le> 32))"

definition is_upper :: "char \<Rightarrow> bool" where
  "is_upper c = (let n = (of_char c :: nat) in 65 \<le> n \<and> n \<le> 90)"

definition is_lower :: "char \<Rightarrow> bool" where
  "is_lower c = (let n = (of_char c :: nat) in 97 \<le> n \<and> n \<le> 122)"

definition is_digit :: "char \<Rightarrow> bool" where
  "is_digit c = (let n = (of_char c :: nat) in 48 \<le> n \<and> n \<le> 57)"

definition is_alnum :: "char \<Rightarrow> bool" where
  "is_alnum c = (is_upper c \<or> is_lower c \<or> is_digit c)"

definition is_word :: "char \<Rightarrow> bool" where
  \<comment> \<open>the regex class \<^verbatim>\<open>\w\<close>: letters, digits and the underscore; \<^verbatim>\<open>\W\<close> is its complement\<close>
  "is_word c = (is_alnum c \<or> c = CHR ''_'')"

definition lower_char :: "char \<Rightarrow> char" where
  "lower_char c = (if is_upper c then char_of ((of_char c :: nat) + 32) else c)"

definition upper_char :: "char \<Rightarrow> char" where
  "upper_char c = (if is_lower c then char_of ((of_char c :: nat) - 32) else c)"

definition lower :: "string \<Rightarrow> string" where
  \<comment> \<open>\<^verbatim>\<open>s.lower()\<close>\<close>
  "lower s = map lower_char s"

definition upper :: "string \<Rightarrow> string" where
  \<comment> \<open>\<^verbatim>\<open>s.upper()\<close>\<close>
  "upper s = map upper_char s"

definition strip :: "string \<Rightarrow> string" where
  \<comment> \<open>\<^verbatim>\<open>s.strip()\<close>\<close>
  "strip s = rev (dropWhile is_space (rev (dropWhile is_space s)))"

definition startswith :: "'a list \<Rightarrow> 'a list \<Rightarrow> bool" where
  \<comment> \<open>\<^verbatim>\<open>s.startswith(p)\<close>\<close>
  "startswith s p = (take (length p) s = p)"

primrec contains :: "'a list \<Rightarrow> 'a list \<Rightarrow> bool" where
  \<comment> \<open>\<^verbatim>\<open>sub in s\<close> on strings: \<open>contains sub s\<close>\<close>
  "contains sub [] = (sub = [])"
| "contains sub (c # cs) = (startswith (c # cs) sub \<or> contains sub cs)"

fun split_on :: "char \<Rightarrow> string \<Rightarrow> string list" where
  \<comment> \<open>\<^verbatim>\<open>s.split(sep)\<close> for a separator of one character\<close>
  "split_on sep [] = [[]]"
| "split_on sep (c # cs) =
     (if c = sep then [] # split_on sep cs
      else (case split_on sep cs of [] \<Rightarrow> [[c]] | w # ws \<Rightarrow> (c # w) # ws))"

fun join :: "string \<Rightarrow> string list \<Rightarrow> string" where
  \<comment> \<open>\<^verbatim>\<open>sep.join(words)\<close>\<close>
  "join sep [] = []"
| "join sep [w] = w"
| "join sep (w # v # ws) = w @ sep @ join sep (v # ws)"

function replace_str :: "string \<Rightarrow> string \<Rightarrow> string \<Rightarrow> string" where
  \<comment> \<open>\<^verbatim>\<open>s.replace(old, new)\<close> for a non-empty \<open>old\<close> (the code passes \<^verbatim>\<open>'.xlsx'\<close>):
      every occurrence, left to right, without overlap\<close>
  "replace_str old new [] = []"
| "replace_str old new (c # cs) =
     (if old \<noteq> [] \<and> startswith (c # cs) old
      then new @ replace_str old new (drop (length old) (c # cs))
      else c # replace_str old new cs)"
  by pat_completeness auto
termination
  by (relation "measure (\<lambda>(old, new, s). length s)") auto

definition digit_char :: "nat \<Rightarrow> char" where
  "digit_char d = char_of (48 + d)"

fun str_nat :: "nat \<Rightarrow> string" where
  "str_nat n = (if n < 10 then [digit_char n] else str_nat (n div 10) @ [digit_char (n mod 10)])"

declare str_nat.simps [simp del]

definition str_int :: "int \<Rightarrow> string" where
  \<comment> \<open>\<^verbatim>\<open>str(i)\<close> of a Python int\<close>
  "str_int i = (if i < 0 then CHR ''-'' # str_nat (nat (- i)) else str_nat (nat i))"

fun find_close :: "string \<Rightarrow> string option" where
  \<comment> \<open>after an opening bracket: the text behind the nearest \<^verbatim>\<open>]\<close>, when no line
      break stands before it (the lazy \<^verbatim>\<open>.*?\<close> does not match a line break)\<close>
  "find_close [] = None"
| "find_close (c # cs) =
     (if c = CHR '']'' then Some cs
      else if c = CHR 0x0A then None
      else find_close cs)"

function sub_brackets :: "string \<Rightarrow> string" where
  \<comment> \<open>\<^verbatim>\<open>re.sub(r'\[.*?\]\s*', '', s)\<close>\<close>
  "sub_brackets [] = []"
| "sub_brackets (c # cs) =
     (if c = CHR ''[''
      then (case find_close cs of
              Some r \<Rightarrow> sub_brackets (dropWhile is_space r)
            | None \<Rightarrow> c # sub_brackets cs)
      else c # sub_brackets cs)"
  by pat_completeness auto
termination
proof (relation "measure length")
  fix c :: char and cs r :: string
  assume close: "find_close cs = Some r"
  have "find_close xs = Some ys \<Longrightarrow> length ys < Suc (length xs)" for xs ys
    by (induction xs) (auto split: if_splits)
  from this [OF close] have "length r < Suc (length cs)" .
  moreover have "length (dropWhile is_space r) \<le> length r"
    by (rule length_dropWhile_le)
  ultimately show "(dropWhile is_space r, c # cs) \<in> measure length"
    by simp
qed auto

function sub_nonword :: "string \<Rightarrow> string" where
  \<comment> \<open>\<^verbatim>\<open>re.sub(r'\W+', '_', s)\<close>\<close>
  "sub_nonword [] = []"
| "sub_nonword (c # cs) =
     (if is_word c then c # sub_nonword cs
      else CHR ''_'' # sub_nonword (dropWhile (\<lambda>x. \<not> is_word x) cs))"
  by pat_completeness auto
termination
  by (relation "measure length") (auto simp: le_imp_less_Suc length_dropWhile_le)

section \<open>The program\<close>

definition filter_kab :: "table \<Rightarrow> int \<Rightarrow> error + table" where
  \<comment> \<open>\<^verbatim>\<open>df[df['kab'] == kab_code]\<close>: a cell equals the Python int \<open>kab_code\<close> when it
      is that int; text and missing cells compare unequal\<close>
  "filter_kab df kab_code =
     (case get_col df ''kab'' of
        Inl e \<Rightarrow> Inl e
      | Inr ks \<Rightarrow>
          Inr (map (\<lambda>(n, vs). (n, select_rows (map (\<lambda>k. k = IntV kab_code) ks) vs)) df))"

definition iloc0 :: "table \<Rightarrow> error + (string \<times> cell) list" where
  \<comment> \<open>\<^verbatim>\<open>df.iloc[0]\<close>: the first row, as a series indexed by the column names;
      IndexError on a frame without rows\<close>
  "iloc0 t =
     (if nrows t = 0 then Inl IndexError
      else Inr (map (\<lambda>(n, vs). (n, case vs of [] \<Rightarrow> NaN | v # rest \<Rightarrow> v)) t))"

definition clean_name :: "string \<Rightarrow> string" where
  \<comment> \<open>lines 37 and 39 of \<^verbatim>\<open>get_kabupaten_name\<close>\<close>
  "clean_name full_name = sub_nonword (strip (sub_brackets full_name))"

definition get_kabupaten_name :: "table \<Rightarrow> int \<Rightarrow> error + string" where
  \<comment> \<open>\<^verbatim>\<open>re.sub\<close> raises TypeError on a value that is not a string\<close>
  "get_kabupaten_name df kab_code =
     (case filter_kab df kab_code of
        Inl e \<Rightarrow> Inl e
      | Inr rows \<Rightarrow>
          (case iloc0 rows of
             Inl e \<Rightarrow> Inl e
           | Inr kab_row \<Rightarrow>
               (case (case map_of kab_row ''id_kab'' of
                        None \<Rightarrow> StrV (str_int kab_code)
                      | Some v \<Rightarrow> v) of
                  StrV full_name \<Rightarrow> Inr (clean_name full_name)
                | IntV i \<Rightarrow> Inl TypeError
                | NaN \<Rightarrow> Inl TypeError)))"



definition family_prefix :: string where
  "family_prefix = ''n_rtup_ternak_usaha_''"

definition animal_of :: "string \<Rightarrow> string" where
  \<comment> \<open>\<^verbatim>\<open>'_'.join(col.split('_')[4:])\<close>\<close>
  "animal_of col = join ''_'' (drop 4 (split_on CHR ''_'' col))"

definition matching_cols :: "string list \<Rightarrow> string \<Rightarrow> string list \<Rightarrow> string list" where
  \<comment> \<open>line 119: \<^verbatim>\<open>[c for c in df_template.columns if animal in c and
      any(keyword in c.lower() for keyword in column_keywords)]\<close>\<close>
  "matching_cols column_keywords animal cols =
     filter (\<lambda>c. contains animal c \<and> (\<exists>keyword \<in> set column_keywords. contains keyword (lower c))) cols"

fun astype_str :: "cell \<Rightarrow> cell" where
  \<comment> \<open>\<^verbatim>\<open>astype(str)\<close> on one cell: Python's \<^verbatim>\<open>str\<close> of the value\<close>
  "astype_str (IntV i) = StrV (str_int i)"
| "astype_str (StrV s) = StrV s"
| "astype_str NaN = StrV ''nan''"

definition in_window :: "cell list \<Rightarrow> error + bool list" where
  \<comment> \<open>line 125: \<^verbatim>\<open>(column > 0) & (column < 3)\<close>; comparing a str with an int raises
      TypeError, a missing value compares False\<close>
  "in_window vs =
     (if \<exists>v \<in> set vs. case v of StrV s \<Rightarrow> True | _ \<Rightarrow> False then Inl TypeError
      else Inr (map (\<lambda>v. case v of IntV i \<Rightarrow> i > 0 \<and> i < 3 | _ \<Rightarrow> False) vs))"

fun loc_set :: "bool list \<Rightarrow> cell \<Rightarrow> cell list \<Rightarrow> cell list" where
  \<comment> \<open>\<^verbatim>\<open>df.loc[rows, column] = value\<close> on the cells of the column\<close>
  "loc_set (b # bs) x (v # vs) = (if b then x else v) # loc_set bs x vs"
| "loc_set [] x vs = vs"
| "loc_set bs x [] = []"

record frames =
  df_ref_filtered :: table
  df_derived_filtered :: table
  df_template :: table

definition matched_kec :: "table \<Rightarrow> string \<Rightarrow> error + cell list" where
  \<comment> \<open>lines 125 and 126: the \<^verbatim>\<open>kec\<close> codes of the reference rows whose value in the
      family column \<open>col\<close> passes the threshold\<close>
  "matched_kec ref col =
     (case get_col ref col of
        Inl e \<Rightarrow> Inl e
      | Inr ref_vals \<Rightarrow>
          (case in_window ref_vals of
             Inl e \<Rightarrow> Inl e
           | Inr row_mask \<Rightarrow>
               (case get_col ref ''kec'' of
                  Inl e \<Rightarrow> Inl e
                | Inr ref_kec \<Rightarrow> Inr (select_rows row_mask ref_kec))))"

definition mask_one :: "string \<Rightarrow> string \<Rightarrow> frames \<Rightarrow> error + frames" where
  \<comment> \<open>lines 122 to 129: the body of the inner loop, for family column \<open>col\<close> and matching
      column \<open>matching_col\<close>\<close>
  "mask_one col matching_col st =
     (case get_col (df_template st) matching_col of
        Inl e \<Rightarrow> Inl e
      | Inr old \<Rightarrow>
          let tmpl = set_col (df_template st) matching_col (map astype_str old) in
          (case matched_kec (df_ref_filtered st) col of
             Inl e \<Rightarrow> Inl e
           | Inr mk \<Rightarrow>
               (case get_col tmpl ''kec'' of
                  Inl e \<Rightarrow> Inl e
                | Inr kec \<Rightarrow>
                    (case get_col tmpl matching_col of
                       Inl e \<Rightarrow> Inl e
                     | Inr cur \<Rightarrow>
                         Inr (st\<lparr>df_template :=
                           set_col tmpl matching_col
                             (loc_set (map (\<lambda>k. k \<in> set mk) kec) (StrV ''NA'') cur)\<rparr>)))))"

fun mask_cols :: "string \<Rightarrow> string list \<Rightarrow> frames \<Rightarrow> error + frames" where
  \<comment> \<open>line 121: \<^verbatim>\<open>for matching_col in matching_cols\<close>\<close>
  "mask_cols col [] st = Inr st"
| "mask_cols col (matching_col # rest) st =
     (case mask_one col matching_col st of
        Inl e \<Rightarrow> Inl e
      | Inr st' \<Rightarrow> mask_cols col rest st')"

fun apply_rule :: "string list \<Rightarrow> string list \<Rightarrow> frames \<Rightarrow> error + frames" where
  \<comment> \<open>lines 114 to 119: \<^verbatim>\<open>for col in df_ref_filtered.columns\<close>\<close>
  "apply_rule column_keywords [] st = Inr st"
| "apply_rule column_keywords (col # cols) st =
     (if startswith col family_prefix
      then (case mask_cols col
                   (matching_cols column_keywords (animal_of col) (columns (df_template st))) st of
              Inl e \<Rightarrow> Inl e
            | Inr st' \<Rightarrow> apply_rule column_keywords cols st')
      else apply_rule column_keywords cols st)"

definition masker :: "table \<Rightarrow> table \<Rightarrow> string list \<Rightarrow> error + frames" where
  \<comment> \<open>lines 111 to 129 on the two filtered tables: the template starts as a copy of the
      filtered derived table\<close>
  "masker ref_filtered derived_filtered column_keywords =
     apply_rule column_keywords (columns ref_filtered)
       \<lparr>df_ref_filtered = ref_filtered, df_derived_filtered = derived_filtered,
        df_template = derived_filtered\<rparr>"

record workbook =
  output_file :: string
  acuan :: table
  riil :: table
  template :: table

definition process_excel_data ::
  "table \<Rightarrow> table \<Rightarrow> string \<Rightarrow> int \<Rightarrow> string list \<Rightarrow> error + workbook" where
  \<comment> \<open>the two sheets as read by \<^verbatim>\<open>read_excel\<close> are the arguments \<open>df_ref\<close> and
      \<open>df_derived\<close>; the result is the name of the workbook and its three sheets\<close>
  "process_excel_data df_ref df_derived out_file kab_code column_keywords =
     (case filter_kab df_ref kab_code of
        Inl e \<Rightarrow> Inl e
      | Inr ref_filtered \<Rightarrow>
          (case get_kabupaten_name df_ref kab_code of
             Inl e \<Rightarrow> Inl e
           | Inr kab_name \<Rightarrow>
               (case filter_kab df_derived kab_code of
                  Inl e \<Rightarrow> Inl e
                | Inr derived_filtered \<Rightarrow>
                    (case masker ref_filtered derived_filtered column_keywords of
                       Inl e \<Rightarrow> Inl e
                     | Inr st \<Rightarrow>
                         Inr \<lparr>output_file =
                                replace_str ''.xlsx'' (''_'' @ upper kab_name @ ''.xlsx'') out_file,
                              acuan = df_ref_filtered st,
                              riil = df_derived_filtered st,
                              template = df_template st\<rparr>))))"

section \<open>The masking pass as a list of steps\<close>

text \<open>
  The two nested loops run the body \<open>mask_one\<close> on a list of pairs of a family column
  and a matching column. The names of the template's columns never change, so the list
  is fixed when the pass starts.
\<close>

definition steps :: "string list \<Rightarrow> string list \<Rightarrow> string list \<Rightarrow> (string \<times> string) list" where
  "steps column_keywords cols tcols =
     concat (map (\<lambda>col. if startswith col family_prefix
                         then map (Pair col) (matching_cols column_keywords (animal_of col) tcols)
                         else []) cols)"

fun run_steps :: "(string \<times> string) list \<Rightarrow> frames \<Rightarrow> error + frames" where
  "run_steps [] st = Inr st"
| "run_steps ((col, matching_col) # rest) st =
     (case mask_one col matching_col st of
        Inl e \<Rightarrow> Inl e
      | Inr st' \<Rightarrow> run_steps rest st')"

definition matched_by :: "string list \<Rightarrow> string \<Rightarrow> string \<Rightarrow> bool" where
  \<comment> \<open>the tests of lines 115 and 119 together: the reference column \<open>col\<close> is a family
      column and the derived column \<open>c\<close> is one of its matching columns\<close>
  "matched_by column_keywords col c =
     (startswith col family_prefix \<and> contains (animal_of col) c \<and>
      (\<exists>keyword \<in> set column_keywords. contains keyword (lower c)))"


definition row_masked :: "table \<Rightarrow> string list \<Rightarrow> string \<Rightarrow> cell \<Rightarrow> bool" where
  \<comment> \<open>the code \<open>k\<close> is among the \<^verbatim>\<open>kec\<close> codes that line 126 selects for a family
      column of which the derived column \<open>c\<close> is a matching column\<close>
  "row_masked ref column_keywords c k =
     (\<exists>col \<in> set (columns ref). matched_by column_keywords col c \<and>
        (case matched_kec ref col of Inl e \<Rightarrow> False | Inr mk \<Rightarrow> k \<in> set mk))"

function spec_replace_runs :: "string \<Rightarrow> string" where
  \<comment> \<open>the specification's words: every run of non-alphanumeric characters becomes a
      single underscore\<close>
  "spec_replace_runs [] = []"
| "spec_replace_runs (c # cs) =
     (if is_alnum c then c # spec_replace_runs cs
      else CHR ''_'' # spec_replace_runs (dropWhile (\<lambda>x. \<not> is_alnum x) cs))"
  by pat_completeness auto
termination
  by (relation "measure length") (auto simp: le_imp_less_Suc length_dropWhile_le)

definition spec_normalize :: "string \<Rightarrow> string" where
  \<comment> \<open>the specification's region-label normalization: bracketed token stripped,
      whitespace trimmed, non-alphanumeric runs replaced\<close>
  "spec_normalize label = spec_replace_runs (strip (sub_brackets label))"


subsection \<open>Tables\<close>

lemma columns_set_col: "columns (set_col t c vs) = columns t"
  unfolding columns_def by (induction t) auto

lemma map_of_set_col:
  "map_of (set_col t c vs) c' = (if c' = c \<and> map_of t c \<noteq> None then Some vs else map_of t c')"
  by (induction t) auto

lemma set_col_same: "map_of t c = Some vs \<Longrightarrow> set_col t c vs = t"
  by (induction t) (auto split: if_splits)

lemma set_col_twice: "set_col (set_col t c a) c b = set_col t c b"
  by (induction t) auto

lemma get_col_Inr: "get_col t c = Inr vs \<longleftrightarrow> map_of t c = Some vs"
  by (simp add: get_col_def split: option.splits)

lemma map_of_columns: "map_of t c \<noteq> None \<longleftrightarrow> c \<in> set (columns t)"
  unfolding columns_def by (simp add: map_of_eq_None_iff)

lemma length_loc_set: "length (loc_set bs x vs) = length vs"
  by (induction bs x vs rule: loc_set.induct) auto

lemma nth_loc_set:
  "r < length vs \<Longrightarrow> loc_set bs x vs ! r = (if r < length bs \<and> bs ! r then x else vs ! r)"
proof (induction bs x vs arbitrary: r rule: loc_set.induct)
  case (1 b bs x v vs)
  then show ?case by (cases r) auto
next
  case (2 x vs)
  then show ?case by simp
next
  case (3 bs x)
  then show ?case by simp
qed

subsection \<open>One step and the whole pass\<close>

lemma mask_one_Inr:
  "mask_one col mc st = Inr st' \<longleftrightarrow>
   (\<exists>old mk kec.
      map_of (df_template st) mc = Some old \<and>
      matched_kec (df_ref_filtered st) col = Inr mk \<and>
      map_of (set_col (df_template st) mc (map astype_str old)) ''kec'' = Some kec \<and>
      st' = st\<lparr>df_template :=
              set_col (df_template st) mc
                (loc_set (map (\<lambda>k. k \<in> set mk) kec) (StrV ''NA'') (map astype_str old))\<rparr>)"
  unfolding mask_one_def Let_def
  by (auto simp: get_col_def map_of_set_col set_col_twice split: option.splits sum.splits)

lemma mask_cols_run: "mask_cols col mcs st = run_steps (map (Pair col) mcs) st"
  by (induction mcs arbitrary: st) (auto split: sum.splits)

lemma run_steps_append:
  "run_steps (xs @ ys) st = (case run_steps xs st of Inl e \<Rightarrow> Inl e | Inr s \<Rightarrow> run_steps ys s)"
  by (induction xs st rule: run_steps.induct) (auto split: sum.splits)

lemma run_steps_invariant:
  assumes "run_steps S st = Inr st'" and "P st"
    and "\<And>col mc s s'. (col, mc) \<in> set S \<Longrightarrow> P s \<Longrightarrow> mask_one col mc s = Inr s' \<Longrightarrow> P s'"
  shows "P st'"
  using assms
proof (induction S st rule: run_steps.induct)
  case (1 st)
  then show ?case by simp
next
  case (2 col mc rest st)
  from "2.prems"(1) obtain s where one: "mask_one col mc st = Inr s"
    and rest: "run_steps rest s = Inr st'"
    by (auto split: sum.splits)
  have "(col, mc) \<in> set ((col, mc) # rest)" by simp
  from "2.prems"(3) [OF this "2.prems"(2) one] have Ps: "P s" .
  have step: "P x'" if "(c, m) \<in> set rest" "P x" "mask_one c m x = Inr x'" for c m x x'
  proof -
    from that(1) have "(c, m) \<in> set ((col, mc) # rest)" by simp
    from "2.prems"(3) [OF this that(2) that(3)] show ?thesis .
  qed
  show ?case
    by (rule "2.IH" [OF one rest Ps step])
qed

lemma mask_one_columns:
  "mask_one col mc s = Inr s' \<Longrightarrow> columns (df_template s') = columns (df_template s)"
  by (auto simp: mask_one_Inr columns_set_col)

lemma run_steps_columns:
  assumes "run_steps S st = Inr st'"
  shows "columns (df_template st') = columns (df_template st)"
  by (rule run_steps_invariant [OF assms, where P = "\<lambda>s. columns (df_template s) = columns (df_template st)"])
     (simp_all add: mask_one_columns)

lemma apply_rule_run:
  "apply_rule kws cols st = run_steps (steps kws cols (columns (df_template st))) st"
proof (induction cols arbitrary: st)
  case Nil
  then show ?case by (simp add: steps_def)
next
  case (Cons col cols)
  show ?case
  proof (cases "startswith col family_prefix")
    case False
    with Cons show ?thesis by (simp add: steps_def)
  next
    case True
    let ?mcs = "matching_cols kws (animal_of col) (columns (df_template st))"
    have split: "steps kws (col # cols) (columns (df_template st)) =
        map (Pair col) ?mcs @ steps kws cols (columns (df_template st))"
      using True by (simp add: steps_def)
    show ?thesis
    proof (cases "run_steps (map (Pair col) ?mcs) st")
      case (Inl e)
      then show ?thesis
        using True by (simp add: split run_steps_append mask_cols_run)
    next
      case (Inr s)
      then have "columns (df_template s) = columns (df_template st)"
        by (rule run_steps_columns)
      with Cons [of s] Inr True show ?thesis
        by (simp add: split run_steps_append mask_cols_run)
    qed
  qed
qed

lemma masker_run:
  "masker ref d kws =
     run_steps (steps kws (columns ref) (columns d))
       \<lparr>df_ref_filtered = ref, df_derived_filtered = d, df_template = d\<rparr>"
  by (simp add: masker_def apply_rule_run)

lemma steps_iff:
  "(col, mc) \<in> set (steps kws cols tcols) \<longleftrightarrow>
   col \<in> set cols \<and> startswith col family_prefix \<and> mc \<in> set (matching_cols kws (animal_of col) tcols)"
  unfolding steps_def by auto

lemma run_steps_established:
  assumes run: "run_steps S st = Inr st'" and mem: "(col, mc) \<in> set S" and start: "I st"
    and inv: "\<And>c m s s'. (c, m) \<in> set S \<Longrightarrow> I s \<Longrightarrow> mask_one c m s = Inr s' \<Longrightarrow> I s'"
    and est: "\<And>s s'. I s \<Longrightarrow> mask_one col mc s = Inr s' \<Longrightarrow> Q s'"
    and pres: "\<And>c m s s'. (c, m) \<in> set S \<Longrightarrow> I s \<Longrightarrow> Q s \<Longrightarrow> mask_one c m s = Inr s' \<Longrightarrow> Q s'"
  shows "I st' \<and> Q st'"
proof -
  from split_list [OF mem] obtain pre post where S: "S = pre @ (col, mc) # post"
    by blast
  from run obtain s1 where r1: "run_steps pre st = Inr s1"
    and r23: "run_steps ((col, mc) # post) s1 = Inr st'"
    unfolding S run_steps_append by (auto split: sum.splits)
  from r23 obtain s2 where r2: "mask_one col mc s1 = Inr s2"
    and r3: "run_steps post s2 = Inr st'"
    by (auto split: sum.splits)
  have I1: "I s1"
  proof (rule run_steps_invariant [OF r1, where P = I])
    show "I st" by (rule start)
  next
    fix c m s s'
    assume "(c, m) \<in> set pre" "I s" "mask_one c m s = Inr s'"
    then show "I s'" using inv [of c m s s'] S by simp
  qed
  have I2: "I s2" using inv [OF mem I1 r2] .
  have Q2: "Q s2" using est [OF I1 r2] .
  show ?thesis
  proof (rule run_steps_invariant [OF r3, where P = "\<lambda>s. I s \<and> Q s"])
    show "I s2 \<and> Q s2" using I2 Q2 by simp
  next
    fix c m s s'
    assume a: "(c, m) \<in> set post" "I s \<and> Q s" "mask_one c m s = Inr s'"
    then have "(c, m) \<in> set S" using S by simp
    with a inv [of c m s s'] pres [of c m s s'] show "I s' \<and> Q s'" by simp
  qed
qed

lemma steps_matched_by:
  "(col, mc) \<in> set (steps kws cols tcols) \<longleftrightarrow>
   col \<in> set cols \<and> mc \<in> set tcols \<and> matched_by kws col mc"
  unfolding steps_iff matched_by_def matching_cols_def by auto

lemma astype_str_idem: "astype_str (astype_str v) = astype_str v"
  by (cases v) simp_all

lemma astype_str_NA: "astype_str (StrV ''NA'') = StrV ''NA''"
  by simp

lemma mask_one_cases:
  assumes "mask_one col mc s = Inr s'"
  obtains old mk kec where
    "map_of (df_template s) mc = Some old"
    "matched_kec (df_ref_filtered s) col = Inr mk"
    "mc = ''kec'' \<longrightarrow> kec = map astype_str old"
    "mc \<noteq> ''kec'' \<longrightarrow> map_of (df_template s) ''kec'' = Some kec"
    "map_of (df_template s') mc =
       Some (loc_set (map (\<lambda>k. k \<in> set mk) kec) (StrV ''NA'') (map astype_str old))"
    "\<And>c. c \<noteq> mc \<Longrightarrow> map_of (df_template s') c = map_of (df_template s) c"
    "df_ref_filtered s' = df_ref_filtered s"
    "df_derived_filtered s' = df_derived_filtered s"
    "columns (df_template s') = columns (df_template s)"
proof -
  from assms obtain old mk kec where
    old: "map_of (df_template s) mc = Some old"
    and mk: "matched_kec (df_ref_filtered s) col = Inr mk"
    and kec: "map_of (set_col (df_template s) mc (map astype_str old)) ''kec'' = Some kec"
    and s': "s' = s\<lparr>df_template :=
              set_col (df_template s) mc
                (loc_set (map (\<lambda>k. k \<in> set mk) kec) (StrV ''NA'') (map astype_str old))\<rparr>"
    unfolding mask_one_Inr by blast
  show thesis
  proof (rule that [of old mk kec])
    show "map_of (df_template s) mc = Some old" by (rule old)
    show "matched_kec (df_ref_filtered s) col = Inr mk" by (rule mk)
    show "mc = ''kec'' \<longrightarrow> kec = map astype_str old"
      using kec old by (auto simp: map_of_set_col)
    show "mc \<noteq> ''kec'' \<longrightarrow> map_of (df_template s) ''kec'' = Some kec"
      using kec old by (auto simp: map_of_set_col)
    show "map_of (df_template s') mc =
       Some (loc_set (map (\<lambda>k. k \<in> set mk) kec) (StrV ''NA'') (map astype_str old))"
      using old by (simp add: s' map_of_set_col)
    show "map_of (df_template s') c = map_of (df_template s) c" if "c \<noteq> mc" for c
      using that by (simp add: s' map_of_set_col)
    show "df_ref_filtered s' = df_ref_filtered s" by (simp add: s')
    show "df_derived_filtered s' = df_derived_filtered s" by (simp add: s')
    show "columns (df_template s') = columns (df_template s)"
      by (simp add: s' columns_set_col)
  qed
qed

lemma mask_one_target:
  assumes "mask_one col mc s = Inr s'"
  shows "\<exists>old bs. map_of (df_template s) mc = Some old \<and>
           map_of (df_template s') mc = Some (loc_set bs (StrV ''NA'') (map astype_str old))"
proof -
  from assms obtain old and mk kec :: "cell list" where
    old: "map_of (df_template s) mc = Some old"
    and s': "s' = s\<lparr>df_template :=
              set_col (df_template s) mc
                (loc_set (map (\<lambda>k. k \<in> set mk) kec) (StrV ''NA'') (map astype_str old))\<rparr>"
    unfolding mask_one_Inr by blast
  from old have "map_of (df_template s') mc =
      Some (loc_set (map (\<lambda>k. k \<in> set mk) kec) (StrV ''NA'') (map astype_str old))"
    by (simp add: s' map_of_set_col)
  with old show ?thesis by blast
qed

lemma mask_one_other:
  assumes "mask_one col mc s = Inr s'" and "c \<noteq> mc"
  shows "map_of (df_template s') c = map_of (df_template s) c"
proof -
  from assms(1) obtain vs where "s' = s\<lparr>df_template := set_col (df_template s) mc vs\<rparr>"
    unfolding mask_one_Inr by blast
  with assms(2) show ?thesis by (simp add: map_of_set_col)
qed

lemma loc_set_map_cell:
  assumes "r < length ws"
  shows "loc_set bs x (map f ws) ! r = x \<or> loc_set bs x (map f ws) ! r = f (ws ! r)"
  using assms by (simp add: nth_loc_set)

lemma matched_column_coerced:
  assumes run: "masker ref d kws = Inr st" and c: "map_of d c = Some vs"
    and col: "col \<in> set (columns ref)" and m: "matched_by kws col c"
  shows "\<exists>ws. map_of (df_template st) c = Some ws \<and> length ws = length vs \<and>
           (\<forall>r < length vs. ws ! r = StrV ''NA'' \<or> ws ! r = astype_str (vs ! r))"
proof -
  define I where "I s \<longleftrightarrow>
    (\<exists>ws. map_of (df_template s) c = Some ws \<and> length ws = length vs \<and>
       (\<forall>r < length vs. ws ! r = vs ! r \<or> ws ! r = astype_str (vs ! r) \<or> ws ! r = StrV ''NA''))"
    for s :: frames
  define Q where "Q s \<longleftrightarrow>
    (\<exists>ws. map_of (df_template s) c = Some ws \<and> length ws = length vs \<and>
       (\<forall>r < length vs. ws ! r = StrV ''NA'' \<or> ws ! r = astype_str (vs ! r)))"
    for s :: frames
  let ?S = "steps kws (columns ref) (columns d)"
  let ?st0 = "\<lparr>df_ref_filtered = ref, df_derived_filtered = d, df_template = d\<rparr>"
  from run have run': "run_steps ?S ?st0 = Inr st"
    by (simp add: masker_run)
  from c have "c \<in> set (columns d)"
    using map_of_columns [of d c] by simp
  with col m have mem: "(col, c) \<in> set ?S"
    by (simp add: steps_matched_by)
  have step: "\<exists>ws'. map_of (df_template s') c = Some ws' \<and> length ws' = length vs \<and>
       (\<forall>r < length vs. ws' ! r = StrV ''NA'' \<or> ws' ! r = astype_str (ws ! r))"
    if "mask_one x c s = Inr s'" and "map_of (df_template s) c = Some ws"
      and "length ws = length vs" for x s s' ws
  proof -
    from mask_one_target [OF that(1)] that(2) obtain bs where
      new: "map_of (df_template s') c = Some (loc_set bs (StrV ''NA'') (map astype_str ws))"
      by auto
    have "loc_set bs (StrV ''NA'') (map astype_str ws) ! r = StrV ''NA'' \<or>
          loc_set bs (StrV ''NA'') (map astype_str ws) ! r = astype_str (ws ! r)"
      if "r < length vs" for r
      using that \<open>length ws = length vs\<close> by (simp add: loc_set_map_cell)
    then have "\<forall>r < length vs.
          loc_set bs (StrV ''NA'') (map astype_str ws) ! r = StrV ''NA'' \<or>
          loc_set bs (StrV ''NA'') (map astype_str ws) ! r = astype_str (ws ! r)"
      by blast
    with new that(3) show ?thesis
      by (simp add: length_loc_set)
  qed
  have "I st \<and> Q st"
  proof (rule run_steps_established [OF run' mem, where I = I and Q = Q])
    show "I ?st0" using c by (simp add: I_def)
  next
    fix x m s s'
    assume "(x, m) \<in> set ?S" and Is: "I s" and one: "mask_one x m s = Inr s'"
    show "I s'"
    proof (cases "m = c")
      case False
      from False have "map_of (df_template s') c = map_of (df_template s) c"
        by (intro mask_one_other [OF one]) simp
      with Is show ?thesis by (simp add: I_def)
    next
      case True
      from Is obtain ws where ws: "map_of (df_template s) c = Some ws" "length ws = length vs"
        and rel: "\<forall>r < length vs. ws ! r = vs ! r \<or> ws ! r = astype_str (vs ! r) \<or>
                    ws ! r = StrV ''NA''"
        by (auto simp: I_def)
      from step [OF one [unfolded True] ws] obtain ws' where
        ws': "map_of (df_template s') c = Some ws'" "length ws' = length vs"
        and rel': "\<forall>r < length vs. ws' ! r = StrV ''NA'' \<or> ws' ! r = astype_str (ws ! r)"
        by blast
      have "ws' ! r = vs ! r \<or> ws' ! r = astype_str (vs ! r) \<or> ws' ! r = StrV ''NA''"
        if "r < length vs" for r
        using rel [rule_format, OF that] rel' [rule_format, OF that]
        by (auto simp: astype_str_idem)
      with ws' show ?thesis unfolding I_def by blast
    qed
  next
    fix s s'
    assume Is: "I s" and one: "mask_one col c s = Inr s'"
    from Is obtain ws where ws: "map_of (df_template s) c = Some ws" "length ws = length vs"
      and rel: "\<forall>r < length vs. ws ! r = vs ! r \<or> ws ! r = astype_str (vs ! r) \<or>
                  ws ! r = StrV ''NA''"
      by (auto simp: I_def)
    from step [OF one ws] obtain ws' where
      ws': "map_of (df_template s') c = Some ws'" "length ws' = length vs"
      and rel': "\<forall>r < length vs. ws' ! r = StrV ''NA'' \<or> ws' ! r = astype_str (ws ! r)"
      by blast
    have "ws' ! r = StrV ''NA'' \<or> ws' ! r = astype_str (vs ! r)"
      if "r < length vs" for r
      using rel [rule_format, OF that] rel' [rule_format, OF that]
      by (auto simp: astype_str_idem)
    with ws' show "Q s'" unfolding Q_def by blast
  next
    fix x m s s'
    assume "(x, m) \<in> set ?S" and "I s" and Qs: "Q s" and one: "mask_one x m s = Inr s'"
    show "Q s'"
    proof (cases "m = c")
      case False
      from False have "map_of (df_template s') c = map_of (df_template s) c"
        by (intro mask_one_other [OF one]) simp
      with Qs show ?thesis by (simp add: Q_def)
    next
      case True
      from Qs obtain ws where ws: "map_of (df_template s) c = Some ws" "length ws = length vs"
        and rel: "\<forall>r < length vs. ws ! r = StrV ''NA'' \<or> ws ! r = astype_str (vs ! r)"
        by (auto simp: Q_def)
      from step [OF one [unfolded True] ws] obtain ws' where
        ws': "map_of (df_template s') c = Some ws'" "length ws' = length vs"
        and rel': "\<forall>r < length vs. ws' ! r = StrV ''NA'' \<or> ws' ! r = astype_str (ws ! r)"
        by blast
      have "ws' ! r = StrV ''NA'' \<or> ws' ! r = astype_str (vs ! r)"
        if "r < length vs" for r
        using rel [rule_format, OF that] rel' [rule_format, OF that]
        by (auto simp: astype_str_idem)
      with ws' show ?thesis unfolding Q_def by blast
    qed
  qed
  then show ?thesis by (simp add: Q_def)
qed

lemma unmatched_column_unchanged:
  assumes run: "masker ref d kws = Inr st"
    and no: "\<forall>col \<in> set (columns ref). \<not> matched_by kws col c"
  shows "map_of (df_template st) c = map_of d c"
proof -
  let ?S = "steps kws (columns ref) (columns d)"
  let ?st0 = "\<lparr>df_ref_filtered = ref, df_derived_filtered = d, df_template = d\<rparr>"
  from run have run': "run_steps ?S ?st0 = Inr st"
    by (simp add: masker_run)
  show ?thesis
  proof (rule run_steps_invariant [OF run', where P = "\<lambda>s. map_of (df_template s) c = map_of d c"])
    show "map_of (df_template ?st0) c = map_of d c" by simp
  next
    fix col mc s s'
    assume mem: "(col, mc) \<in> set ?S" and eq: "map_of (df_template s) c = map_of d c"
      and one: "mask_one col mc s = Inr s'"
    from mem no have "mc \<noteq> c"
      by (auto simp: steps_matched_by)
    then have "map_of (df_template s') c = map_of (df_template s) c"
      by (intro mask_one_other [OF one]) simp
    with eq show "map_of (df_template s') c = map_of d c" by simp
  qed
qed

lemma map_astype_loc_set:
  "map astype_str ws = ws \<Longrightarrow>
   map astype_str (loc_set bs (StrV ''NA'') ws) = loc_set bs (StrV ''NA'') ws"
  by (induction bs "StrV ''NA''" ws rule: loc_set.induct) auto

lemma loc_set_idem: "loc_set bs x (loc_set bs x vs) = loc_set bs x vs"
  by (induction bs x vs rule: loc_set.induct) auto

lemma loc_set_fixed_other:
  assumes "loc_set bs x ws = ws"
  shows "loc_set bs x (loc_set bs' x ws) = loc_set bs' x ws"
proof (rule nth_equalityI)
  show "length (loc_set bs x (loc_set bs' x ws)) = length (loc_set bs' x ws)"
    by (simp add: length_loc_set)
next
  fix r
  assume "r < length (loc_set bs x (loc_set bs' x ws))"
  then have r: "r < length ws" by (simp add: length_loc_set)
  from assms have "loc_set bs x ws ! r = ws ! r" by simp
  moreover from r have "loc_set bs x ws ! r = (if r < length bs \<and> bs ! r then x else ws ! r)"
    by (rule nth_loc_set)
  ultimately have fixed: "r < length bs \<and> bs ! r \<longrightarrow> ws ! r = x"
    by (metis (full_types))
  from r fixed show "loc_set bs x (loc_set bs' x ws) ! r = loc_set bs' x ws ! r"
    by (simp add: nth_loc_set length_loc_set)
qed

lemma run_steps_fixed:
  assumes "\<And>col mc. (col, mc) \<in> set S \<Longrightarrow> mask_one col mc s = Inr s"
  shows "run_steps S s = Inr s"
  using assms by (induction S) auto

lemma masker_idempotent:
  assumes run: "masker ref d kws = Inr st1"
    and nokec: "\<forall>col \<in> set (columns ref). \<not> matched_by kws col ''kec''"
  shows "masker ref (df_template st1) kws =
     Inr \<lparr>df_ref_filtered = ref, df_derived_filtered = df_template st1,
          df_template = df_template st1\<rparr>"
proof -
  let ?S = "steps kws (columns ref) (columns d)"
  let ?st0 = "\<lparr>df_ref_filtered = ref, df_derived_filtered = d, df_template = d\<rparr>"
  let ?T = "df_template st1"
  let ?st1 = "\<lparr>df_ref_filtered = ref, df_derived_filtered = ?T, df_template = ?T\<rparr>"
  define I where "I s \<longleftrightarrow> df_ref_filtered s = ref \<and>
     map_of (df_template s) ''kec'' = map_of d ''kec''" for s :: frames
  from run have run': "run_steps ?S ?st0 = Inr st1"
    by (simp add: masker_run)
  have notkec: "mc \<noteq> ''kec''" if "(col, mc) \<in> set ?S" for col mc
    using that nokec by (auto simp: steps_matched_by)
  have I_step: "I s'" if mem: "(c, m) \<in> set ?S" and Is: "I s" and one: "mask_one c m s = Inr s'"
    for c m s s'
  proof -
    from notkec [OF mem] have "''kec'' \<noteq> m" by simp
    from mask_one_other [OF one this] Is one show ?thesis
      by (auto simp: I_def mask_one_Inr)
  qed
  have fixed: "mask_one col mc ?st1 = Inr ?st1" if mem: "(col, mc) \<in> set ?S" for col mc
  proof -
    define Q where "Q s \<longleftrightarrow>
      (\<exists>ws mk kec. map_of (df_template s) mc = Some ws \<and> matched_kec ref col = Inr mk \<and>
         map_of d ''kec'' = Some kec \<and> map astype_str ws = ws \<and>
         loc_set (map (\<lambda>k. k \<in> set mk) kec) (StrV ''NA'') ws = ws)" for s :: frames
    have "I st1 \<and> Q st1"
    proof (rule run_steps_established [OF run' mem, where I = I and Q = Q])
      show "I ?st0" by (simp add: I_def)
    next
      fix c m s s'
      assume "(c, m) \<in> set ?S" "I s" "mask_one c m s = Inr s'"
      then show "I s'" by (rule I_step)
    next
      fix s s'
      assume Is: "I s" and one: "mask_one col mc s = Inr s'"
      from one obtain old and mk kec :: "cell list" where
        old: "map_of (df_template s) mc = Some old"
        and mk: "matched_kec (df_ref_filtered s) col = Inr mk"
        and kec: "map_of (set_col (df_template s) mc (map astype_str old)) ''kec'' = Some kec"
        and s': "s' = s\<lparr>df_template :=
              set_col (df_template s) mc
                (loc_set (map (\<lambda>k. k \<in> set mk) kec) (StrV ''NA'') (map astype_str old))\<rparr>"
        unfolding mask_one_Inr by blast
      let ?ws = "loc_set (map (\<lambda>k. k \<in> set mk) kec) (StrV ''NA'') (map astype_str old)"
      from kec notkec [OF mem] Is have k: "map_of d ''kec'' = Some kec"
        by (simp add: map_of_set_col I_def)
      have "map_of (df_template s') mc = Some ?ws"
        using old by (simp add: s' map_of_set_col)
      moreover have "map astype_str ?ws = ?ws"
        by (rule map_astype_loc_set) (simp add: astype_str_idem)
      moreover have "loc_set (map (\<lambda>k. k \<in> set mk) kec) (StrV ''NA'') ?ws = ?ws"
        by (rule loc_set_idem)
      ultimately show "Q s'"
        using mk k Is unfolding Q_def I_def by blast
    next
      fix c m s s'
      assume mem': "(c, m) \<in> set ?S" and Is: "I s" and Qs: "Q s"
        and one: "mask_one c m s = Inr s'"
      show "Q s'"
      proof (cases "m = mc")
        case False
        then have "mc \<noteq> m" by simp
        from mask_one_other [OF one this] Qs show ?thesis
          by (simp add: Q_def)
      next
        case True
        from Qs obtain ws and mk kec :: "cell list" where
          ws: "map_of (df_template s) mc = Some ws"
          and mk: "matched_kec ref col = Inr mk" and k: "map_of d ''kec'' = Some kec"
          and str: "map astype_str ws = ws"
          and fx: "loc_set (map (\<lambda>k. k \<in> set mk) kec) (StrV ''NA'') ws = ws"
          unfolding Q_def by blast
        from mask_one_target [OF one] ws True obtain bs where
          new: "map_of (df_template s') mc = Some (loc_set bs (StrV ''NA'') ws)"
          by (auto simp: str)
        have "map astype_str (loc_set bs (StrV ''NA'') ws) = loc_set bs (StrV ''NA'') ws"
          using str by (rule map_astype_loc_set)
        moreover have "loc_set (map (\<lambda>k. k \<in> set mk) kec) (StrV ''NA'')
            (loc_set bs (StrV ''NA'') ws) = loc_set bs (StrV ''NA'') ws"
          using fx by (rule loc_set_fixed_other)
        ultimately show ?thesis
          using new mk k unfolding Q_def by blast
      qed
    qed
    then obtain ws and mk kec :: "cell list" where
      ws: "map_of ?T mc = Some ws"
      and mk: "matched_kec ref col = Inr mk" and k: "map_of ?T ''kec'' = Some kec"
      and str: "map astype_str ws = ws"
      and fx: "loc_set (map (\<lambda>k. k \<in> set mk) kec) (StrV ''NA'') ws = ws"
      unfolding Q_def I_def by auto
    from ws have same: "set_col ?T mc ws = ?T" by (rule set_col_same)
    show ?thesis
      unfolding mask_one_Inr
      by (rule exI [of _ ws], rule exI [of _ mk], rule exI [of _ kec])
         (simp add: ws mk k str fx same)
  qed
  have "columns ?T = columns d"
    using run_steps_columns [OF run'] by simp
  then have "masker ref ?T kws = run_steps ?S ?st1"
    by (simp add: masker_run)
  also have "\<dots> = Inr ?st1"
    using fixed by (rule run_steps_fixed)
  finally show ?thesis .
qed

lemma row_masked_iff:
  "row_masked ref kws c k \<longleftrightarrow>
   (\<exists>col mk. col \<in> set (columns ref) \<and> matched_by kws col c \<and>
      matched_kec ref col = Inr mk \<and> k \<in> set mk)"
proof
  assume "row_masked ref kws c k"
  then obtain col where col: "col \<in> set (columns ref)" "matched_by kws col c"
    and sel: "case matched_kec ref col of Inl e \<Rightarrow> False | Inr mk \<Rightarrow> k \<in> set mk"
    unfolding row_masked_def by blast
  from sel obtain mk where "matched_kec ref col = Inr mk" "k \<in> set mk"
    by (cases "matched_kec ref col") auto
  with col show "\<exists>col mk. col \<in> set (columns ref) \<and> matched_by kws col c \<and>
      matched_kec ref col = Inr mk \<and> k \<in> set mk"
    by blast
next
  assume "\<exists>col mk. col \<in> set (columns ref) \<and> matched_by kws col c \<and>
      matched_kec ref col = Inr mk \<and> k \<in> set mk"
  then show "row_masked ref kws c k"
    unfolding row_masked_def by force
qed

lemma step_on_column:
  assumes one: "mask_one x c s = Inr s'" and c: "c \<noteq> ''kec''"
    and ref: "df_ref_filtered s = ref"
    and kec: "map_of (df_template s) ''kec'' = Some ks"
    and old: "map_of (df_template s) c = Some old"
  shows "\<exists>mk. matched_kec ref x = Inr mk \<and>
           map_of (df_template s') c =
             Some (loc_set (map (\<lambda>k. k \<in> set mk) ks) (StrV ''NA'') (map astype_str old))"
proof -
  from one obtain old' and mk kec' :: "cell list" where
    o: "map_of (df_template s) c = Some old'"
    and mk: "matched_kec (df_ref_filtered s) x = Inr mk"
    and k: "map_of (set_col (df_template s) c (map astype_str old')) ''kec'' = Some kec'"
    and s': "s' = s\<lparr>df_template :=
              set_col (df_template s) c
                (loc_set (map (\<lambda>k. k \<in> set mk) kec') (StrV ''NA'') (map astype_str old'))\<rparr>"
    unfolding mask_one_Inr by blast
  from o old have "old' = old" by simp
  moreover from k c kec have "kec' = ks" by (simp add: map_of_set_col)
  ultimately show ?thesis
    using mk ref old by (simp add: s' map_of_set_col)
qed

lemma masker_kec_invariant:
  assumes mem: "(x, m) \<in> set (steps kws (columns ref) (columns d))"
    and nokec: "\<forall>col \<in> set (columns ref). \<not> matched_by kws col ''kec''"
    and one: "mask_one x m s = Inr s'"
  shows "m \<noteq> ''kec'' \<and> df_ref_filtered s' = df_ref_filtered s \<and>
         map_of (df_template s') ''kec'' = map_of (df_template s) ''kec''"
proof -
  from mem nokec have m: "m \<noteq> ''kec''"
    by (auto simp: steps_matched_by)
  then have "''kec'' \<noteq> m" by simp
  from mask_one_other [OF one this] m one show ?thesis
    by (auto simp: mask_one_Inr)
qed

lemma masker_cell_matched:
  assumes run: "masker ref d kws = Inr st"
    and nokec: "\<forall>col \<in> set (columns ref). \<not> matched_by kws col ''kec''"
    and c: "map_of d c = Some vs" and k: "map_of d ''kec'' = Some ks"
    and matched: "\<exists>col \<in> set (columns ref). matched_by kws col c"
    and r: "r < length vs"
  shows "\<exists>ws. map_of (df_template st) c = Some ws \<and> length ws = length vs \<and>
           ws ! r = (if r < length ks \<and> row_masked ref kws c (ks ! r) then StrV ''NA''
                     else astype_str (vs ! r))"
proof -
  let ?S = "steps kws (columns ref) (columns d)"
  let ?st0 = "\<lparr>df_ref_filtered = ref, df_derived_filtered = d, df_template = d\<rparr>"
  from run have run': "run_steps ?S ?st0 = Inr st"
    by (simp add: masker_run)
  from c have cd: "c \<in> set (columns d)"
    using map_of_columns [of d c] by simp
  from matched nokec have cne: "c \<noteq> ''kec''" by auto
  define B where "B s \<longleftrightarrow> df_ref_filtered s = ref \<and> map_of (df_template s) ''kec'' = Some ks"
    for s :: frames
  have B0: "B ?st0" using k by (simp add: B_def)
  have B_step: "B s'" if "(x, m) \<in> set ?S" "B s" "mask_one x m s = Inr s'" for x m s s'
    using masker_kec_invariant [OF that(1) nokec that(3)] that(2) by (simp add: B_def)
  have on_c: "\<exists>mk. matched_kec ref x = Inr mk \<and>
      map_of (df_template s') c =
         Some (loc_set (map (\<lambda>k. k \<in> set mk) ks) (StrV ''NA'') (map astype_str old))"
    if "mask_one x c s = Inr s'" "B s" "map_of (df_template s) c = Some old" for x s s' old
    using step_on_column [OF that(1) cne _ _ that(3), of ref ks] that(2) by (simp add: B_def)
  show ?thesis
  proof (cases "r < length ks \<and> row_masked ref kws c (ks ! r)")
    case True
    then obtain col mk where col: "col \<in> set (columns ref)" "matched_by kws col c"
      and mk: "matched_kec ref col = Inr mk" "ks ! r \<in> set mk" and rk: "r < length ks"
      unfolding row_masked_iff by blast
    from col cd have mem: "(col, c) \<in> set ?S" by (simp add: steps_matched_by)
    define I where "I s \<longleftrightarrow> B s \<and>
        (\<exists>ws. map_of (df_template s) c = Some ws \<and> length ws = length vs)" for s :: frames
    define Q where "Q s \<longleftrightarrow>
        (\<exists>ws. map_of (df_template s) c = Some ws \<and> length ws = length vs \<and> ws ! r = StrV ''NA'')"
      for s :: frames
    have "I st \<and> Q st"
    proof (rule run_steps_established [OF run' mem, where I = I and Q = Q])
      show "I ?st0" using B0 c by (simp add: I_def)
    next
      fix x m s s'
      assume mem': "(x, m) \<in> set ?S" and Is: "I s" and one: "mask_one x m s = Inr s'"
      from Is obtain ws where Bs: "B s" and ws: "map_of (df_template s) c = Some ws"
        "length ws = length vs" by (auto simp: I_def)
      have Bs': "B s'" using B_step [OF mem' Bs one] .
      show "I s'"
      proof (cases "m = c")
        case False
        then have "c \<noteq> m" by simp
        from mask_one_other [OF one this] ws Bs' show ?thesis by (simp add: I_def)
      next
        case True
        from on_c [OF one [unfolded True] Bs ws(1)] ws(2) Bs' show ?thesis
          by (auto simp: I_def length_loc_set)
      qed
    next
      fix s s'
      assume Is: "I s" and one: "mask_one col c s = Inr s'"
      from Is obtain ws where Bs: "B s" and ws: "map_of (df_template s) c = Some ws"
        "length ws = length vs" by (auto simp: I_def)
      from on_c [OF one Bs ws(1)] mk(1) have
        "map_of (df_template s') c =
           Some (loc_set (map (\<lambda>k. k \<in> set mk) ks) (StrV ''NA'') (map astype_str ws))"
        by simp
      moreover have "loc_set (map (\<lambda>k. k \<in> set mk) ks) (StrV ''NA'') (map astype_str ws) ! r =
          StrV ''NA''"
        using r rk mk(2) ws(2) by (simp add: nth_loc_set)
      ultimately show "Q s'"
        using ws(2) by (simp add: Q_def length_loc_set)
    next
      fix x m s s'
      assume mem': "(x, m) \<in> set ?S" and Is: "I s" and Qs: "Q s"
        and one: "mask_one x m s = Inr s'"
      from Is have Bs: "B s" by (simp add: I_def)
      from Qs obtain ws where ws: "map_of (df_template s) c = Some ws"
        "length ws = length vs" "ws ! r = StrV ''NA''" by (auto simp: Q_def)
      show "Q s'"
      proof (cases "m = c")
        case False
        then have "c \<noteq> m" by simp
        from mask_one_other [OF one this] Qs show ?thesis by (simp add: Q_def)
      next
        case True
        from on_c [OF one [unfolded True] Bs ws(1)] obtain mk' where
          new: "map_of (df_template s') c =
           Some (loc_set (map (\<lambda>k. k \<in> set mk') ks) (StrV ''NA'') (map astype_str ws))"
          by blast
        have "loc_set (map (\<lambda>k. k \<in> set mk') ks) (StrV ''NA'') (map astype_str ws) ! r =
          StrV ''NA''"
          using r ws(2,3) by (auto simp: nth_loc_set)
        with new ws(2) show ?thesis
          by (simp add: Q_def length_loc_set)
      qed
    qed
    with True show ?thesis by (auto simp: Q_def)
  next
    case False
    from matched obtain col where col: "col \<in> set (columns ref)" "matched_by kws col c"
      by blast
    from col cd have mem: "(col, c) \<in> set ?S" by (simp add: steps_matched_by)
    have unmasked: "\<not> (r < length ks \<and> ks ! r \<in> set mk)"
      if "(x, c) \<in> set ?S" "matched_kec ref x = Inr mk" for x mk
    proof
      assume "r < length ks \<and> ks ! r \<in> set mk"
      moreover from that(1) have "x \<in> set (columns ref)" "matched_by kws x c"
        by (simp_all add: steps_matched_by)
      ultimately have "r < length ks \<and> row_masked ref kws c (ks ! r)"
        using that(2) unfolding row_masked_iff by blast
      with False show False by simp
    qed
    have coerce: "\<exists>ws'. map_of (df_template s') c = Some ws' \<and> length ws' = length ws \<and>
        ws' ! r = astype_str (ws ! r)"
      if "(x, c) \<in> set ?S" "mask_one x c s = Inr s'" "B s"
        "map_of (df_template s) c = Some ws" "length ws = length vs" for x s s' ws
    proof -
      from on_c [OF that(2,3,4)] obtain mk where mk: "matched_kec ref x = Inr mk"
        and new: "map_of (df_template s') c =
           Some (loc_set (map (\<lambda>k. k \<in> set mk) ks) (StrV ''NA'') (map astype_str ws))"
        by blast
      have "loc_set (map (\<lambda>k. k \<in> set mk) ks) (StrV ''NA'') (map astype_str ws) ! r =
          astype_str (ws ! r)"
        using unmasked [OF that(1) mk] r that(5) by (auto simp: nth_loc_set)
      with new show ?thesis by (simp add: length_loc_set)
    qed
    define I where "I s \<longleftrightarrow> B s \<and>
        (\<exists>ws. map_of (df_template s) c = Some ws \<and> length ws = length vs \<and>
           (ws ! r = vs ! r \<or> ws ! r = astype_str (vs ! r)))" for s :: frames
    define Q where "Q s \<longleftrightarrow>
        (\<exists>ws. map_of (df_template s) c = Some ws \<and> length ws = length vs \<and>
           ws ! r = astype_str (vs ! r))" for s :: frames
    have "I st \<and> Q st"
    proof (rule run_steps_established [OF run' mem, where I = I and Q = Q])
      show "I ?st0" using B0 c by (simp add: I_def)
    next
      fix x m s s'
      assume mem': "(x, m) \<in> set ?S" and Is: "I s" and one: "mask_one x m s = Inr s'"
      from Is obtain ws where Bs: "B s" and ws: "map_of (df_template s) c = Some ws"
        "length ws = length vs" "ws ! r = vs ! r \<or> ws ! r = astype_str (vs ! r)"
        by (auto simp: I_def)
      have Bs': "B s'" using B_step [OF mem' Bs one] .
      show "I s'"
      proof (cases "m = c")
        case False
        then have "c \<noteq> m" by simp
        from mask_one_other [OF one this] ws Bs' show ?thesis by (auto simp: I_def)
      next
        case True
        from coerce [OF mem' [unfolded True] one [unfolded True] Bs ws(1,2)] ws(2,3) Bs'
        show ?thesis by (auto simp: I_def astype_str_idem)
      qed
    next
      fix s s'
      assume Is: "I s" and one: "mask_one col c s = Inr s'"
      from Is obtain ws where Bs: "B s" and ws: "map_of (df_template s) c = Some ws"
        "length ws = length vs" "ws ! r = vs ! r \<or> ws ! r = astype_str (vs ! r)"
        by (auto simp: I_def)
      from coerce [OF mem one Bs ws(1,2)] ws(2,3) show "Q s'"
        by (auto simp: Q_def astype_str_idem)
    next
      fix x m s s'
      assume mem': "(x, m) \<in> set ?S" and Is: "I s" and Qs: "Q s"
        and one: "mask_one x m s = Inr s'"
      from Is have Bs: "B s" by (simp add: I_def)
      from Qs obtain ws where ws: "map_of (df_template s) c = Some ws"
        "length ws = length vs" "ws ! r = astype_str (vs ! r)" by (auto simp: Q_def)
      show "Q s'"
      proof (cases "m = c")
        case False
        then have "c \<noteq> m" by simp
        from mask_one_other [OF one this] Qs show ?thesis by (simp add: Q_def)
      next
        case True
        from coerce [OF mem' [unfolded True] one [unfolded True] Bs ws(1,2)] ws(2,3)
        show ?thesis by (auto simp: Q_def astype_str_idem)
      qed
    qed
    with False show ?thesis by (auto simp: Q_def)
  qed
qed


lemma masker_cells:
  assumes run: "masker ref d kws = Inr st"
    and nokec: "\<forall>col \<in> set (columns ref). \<not> matched_by kws col ''kec''"
    and c: "map_of d c = Some vs" and k: "map_of d ''kec'' = Some ks"
    and matched: "\<exists>col \<in> set (columns ref). matched_by kws col c"
  shows "\<exists>ws. map_of (df_template st) c = Some ws \<and> length ws = length vs \<and>
           (\<forall>r < length vs.
              ws ! r = (if r < length ks \<and> row_masked ref kws c (ks ! r) then StrV ''NA''
                        else astype_str (vs ! r)))"
proof -
  from matched obtain col where "col \<in> set (columns ref)" "matched_by kws col c"
    by blast
  from matched_column_coerced [OF run c this] obtain ws where
    ws: "map_of (df_template st) c = Some ws" "length ws = length vs"
    by blast
  have "ws ! r = (if r < length ks \<and> row_masked ref kws c (ks ! r) then StrV ''NA''
                  else astype_str (vs ! r))" if "r < length vs" for r
    using masker_cell_matched [OF run nokec c k matched that] ws(1) by auto
  with ws show ?thesis by blast
qed

lemma set_select_rows:
  "k \<in> set (select_rows m rk) \<longleftrightarrow> (\<exists>j. j < length m \<and> j < length rk \<and> m ! j \<and> rk ! j = k)"
  unfolding select_rows_def
  by (auto simp: set_zip image_iff) 

lemma matched_kec_values:
  assumes "matched_kec ref col = Inr mk"
  shows "\<exists>vals rk. get_col ref col = Inr vals \<and> get_col ref ''kec'' = Inr rk \<and>
           (\<forall>k. k \<in> set mk \<longleftrightarrow>
              (\<exists>j. j < length vals \<and> j < length rk \<and> rk ! j = k \<and>
                 (\<exists>i. vals ! j = IntV i \<and> 0 < i \<and> i < 3)))"
proof -
  from assms obtain vals m rk where
    vals: "get_col ref col = Inr vals" and m: "in_window vals = Inr m"
    and rk: "get_col ref ''kec'' = Inr rk" and mk: "mk = select_rows m rk"
    unfolding matched_kec_def by (auto split: sum.splits)
  from m have m_eq: "m = map (\<lambda>v. case v of IntV i \<Rightarrow> i > 0 \<and> i < 3 | _ \<Rightarrow> False) vals"
    unfolding in_window_def by (auto split: if_splits)
  have "k \<in> set mk \<longleftrightarrow>
      (\<exists>j. j < length vals \<and> j < length rk \<and> rk ! j = k \<and>
         (\<exists>i. vals ! j = IntV i \<and> 0 < i \<and> i < 3))" for k
    unfolding mk set_select_rows m_eq
    by (auto split: cell.splits)
  with vals rk show ?thesis by blast
qed

section \<open>The threshold\<close>

lemma in_window_no_text:
  assumes "\<forall>s. StrV s \<notin> set vs"
  shows "in_window vs = Inr (map (\<lambda>v. case v of IntV i \<Rightarrow> i > 0 \<and> i < 3 | _ \<Rightarrow> False) vs)"
proof -
  have "\<not> (\<exists>v \<in> set vs. case v of StrV s \<Rightarrow> True | _ \<Rightarrow> False)"
    using assms by (auto split: cell.splits)
  then show ?thesis
    unfolding in_window_def by simp
qed

text \<open>
  Claim C1, as amended. On a family column that the comparison accepts (no text cell),
  the row mask of line 125 has one entry for each row, true exactly when the cell holds a
  number \<open>v\<close> with \<open>0 < v\<close> and \<open>v < 3\<close>; a missing value is never in the mask. The
  codes that line 126 selects are the \<^verbatim>\<open>kec\<close> codes of exactly those reference rows.
  When the derived table's own \<^verbatim>\<open>kec\<close> column is not a matching column, a cell of a
  matching derived column holds the sentinel after the pass exactly when the code of its
  row is selected for a family column that the column matches; every other cell of the
  column, also one whose reference value is missing, holds the text of its original
  value. At the reference values -1, 0, 1, 2, 3, 4 and a missing value the derived values
  10 to 70 become \<^verbatim>\<open>'10'\<close>, \<^verbatim>\<open>'20'\<close>, \<^verbatim>\<open>'NA'\<close>, \<^verbatim>\<open>'NA'\<close>, \<^verbatim>\<open>'50'\<close>,
  \<^verbatim>\<open>'60'\<close>, \<^verbatim>\<open>'70'\<close>.
\<close>

theorem threshold_masks_rows:
  "((\<forall>s. StrV s \<notin> set vals) \<longrightarrow>
      (\<exists>m. in_window vals = Inr m \<and> length m = length vals \<and>
           (\<forall>j < length vals. m ! j = (\<exists>i. vals ! j = IntV i \<and> 0 < i \<and> i < 3)))) \<and>
   (matched_kec ref col = Inr mk \<longrightarrow>
      (\<exists>vals rk. get_col ref col = Inr vals \<and> get_col ref ''kec'' = Inr rk \<and>
         (\<forall>k. k \<in> set mk \<longleftrightarrow>
            (\<exists>j. j < length vals \<and> j < length rk \<and> rk ! j = k \<and>
               (\<exists>i. vals ! j = IntV i \<and> 0 < i \<and> i < 3))))) \<and>
   (masker ref d column_keywords = Inr st \<and>
    (\<forall>x \<in> set (columns ref). \<not> matched_by column_keywords x ''kec'') \<and>
    get_col d c = Inr vs \<and> get_col d ''kec'' = Inr ks \<and>
    (\<exists>x \<in> set (columns ref). matched_by column_keywords x c) \<longrightarrow>
      (\<exists>ws. get_col (df_template st) c = Inr ws \<and> length ws = length vs \<and>
         (\<forall>r < length vs.
            ws ! r = (if r < length ks \<and> row_masked ref column_keywords c (ks ! r)
                      then StrV ''NA'' else astype_str (vs ! r))))) \<and>
   masker
     [(''kec'', [IntV 1, IntV 2, IntV 3, IntV 4, IntV 5, IntV 6, IntV 7]),
      (''n_rtup_ternak_usaha_ayam'', [IntV (- 1), IntV 0, IntV 1, IntV 2, IntV 3, IntV 4, NaN])]
     [(''kec'', [IntV 1, IntV 2, IntV 3, IntV 4, IntV 5, IntV 6, IntV 7]),
      (''populasi_ayam'', [IntV 10, IntV 20, IntV 30, IntV 40, IntV 50, IntV 60, IntV 70])]
     [''populasi''] =
   Inr \<lparr>df_ref_filtered =
          [(''kec'', [IntV 1, IntV 2, IntV 3, IntV 4, IntV 5, IntV 6, IntV 7]),
           (''n_rtup_ternak_usaha_ayam'',
            [IntV (- 1), IntV 0, IntV 1, IntV 2, IntV 3, IntV 4, NaN])],
        df_derived_filtered =
          [(''kec'', [IntV 1, IntV 2, IntV 3, IntV 4, IntV 5, IntV 6, IntV 7]),
           (''populasi_ayam'', [IntV 10, IntV 20, IntV 30, IntV 40, IntV 50, IntV 60, IntV 70])],
        df_template =
          [(''kec'', [IntV 1, IntV 2, IntV 3, IntV 4, IntV 5, IntV 6, IntV 7]),
           (''populasi_ayam'',
            [StrV ''10'', StrV ''20'', StrV ''NA'', StrV ''NA'', StrV ''50'', StrV ''60'',
             StrV ''70''])]\<rparr>"
proof (intro conjI impI)
  assume "\<forall>s. StrV s \<notin> set vals"
  then show "\<exists>m. in_window vals = Inr m \<and> length m = length vals \<and>
           (\<forall>j < length vals. m ! j = (\<exists>i. vals ! j = IntV i \<and> 0 < i \<and> i < 3))"
    by (auto simp: in_window_no_text split: cell.splits)
next
  assume "matched_kec ref col = Inr mk"
  then show "\<exists>vals rk. get_col ref col = Inr vals \<and> get_col ref ''kec'' = Inr rk \<and>
         (\<forall>k. k \<in> set mk \<longleftrightarrow>
            (\<exists>j. j < length vals \<and> j < length rk \<and> rk ! j = k \<and>
               (\<exists>i. vals ! j = IntV i \<and> 0 < i \<and> i < 3)))"
    by (rule matched_kec_values)
next
  assume a: "masker ref d column_keywords = Inr st \<and>
    (\<forall>x \<in> set (columns ref). \<not> matched_by column_keywords x ''kec'') \<and>
    get_col d c = Inr vs \<and> get_col d ''kec'' = Inr ks \<and>
    (\<exists>x \<in> set (columns ref). matched_by column_keywords x c)"
  then have "\<exists>ws. map_of (df_template st) c = Some ws \<and> length ws = length vs \<and>
         (\<forall>r < length vs.
            ws ! r = (if r < length ks \<and> row_masked ref column_keywords c (ks ! r)
                      then StrV ''NA'' else astype_str (vs ! r)))"
    using masker_cells [of ref d column_keywords st c vs ks]
    by (simp add: get_col_Inr)
  then show "\<exists>ws. get_col (df_template st) c = Inr ws \<and> length ws = length vs \<and>
         (\<forall>r < length vs.
            ws ! r = (if r < length ks \<and> row_masked ref column_keywords c (ks ! r)
                      then StrV ''NA'' else astype_str (vs ! r)))"
    by (simp add: get_col_Inr)
next
  show "masker
     [(''kec'', [IntV 1, IntV 2, IntV 3, IntV 4, IntV 5, IntV 6, IntV 7]),
      (''n_rtup_ternak_usaha_ayam'', [IntV (- 1), IntV 0, IntV 1, IntV 2, IntV 3, IntV 4, NaN])]
     [(''kec'', [IntV 1, IntV 2, IntV 3, IntV 4, IntV 5, IntV 6, IntV 7]),
      (''populasi_ayam'', [IntV 10, IntV 20, IntV 30, IntV 40, IntV 50, IntV 60, IntV 70])]
     [''populasi''] =
   Inr \<lparr>df_ref_filtered =
          [(''kec'', [IntV 1, IntV 2, IntV 3, IntV 4, IntV 5, IntV 6, IntV 7]),
           (''n_rtup_ternak_usaha_ayam'',
            [IntV (- 1), IntV 0, IntV 1, IntV 2, IntV 3, IntV 4, NaN])],
        df_derived_filtered =
          [(''kec'', [IntV 1, IntV 2, IntV 3, IntV 4, IntV 5, IntV 6, IntV 7]),
           (''populasi_ayam'', [IntV 10, IntV 20, IntV 30, IntV 40, IntV 50, IntV 60, IntV 70])],
        df_template =
          [(''kec'', [IntV 1, IntV 2, IntV 3, IntV 4, IntV 5, IntV 6, IntV 7]),
           (''populasi_ayam'',
            [StrV ''10'', StrV ''20'', StrV ''NA'', StrV ''NA'', StrV ''50'', StrV ''60'',
             StrV ''70''])]\<rparr>"
    by code_simp
qed

theorem threshold_masks_rows_witness:
  "\<exists>st ws.
     masker [(''kec'', [IntV 1, IntV 2, IntV 3]), (''n_rtup_ternak_usaha_ayam'', [IntV 2, NaN, IntV 3])]
       [(''kec'', [IntV 3, IntV 2, IntV 1]), (''populasi_ayam'', [IntV 10, IntV 20, IntV 30])]
       [''populasi''] = Inr st \<and>
     (\<forall>x \<in> set (columns [(''kec'', [IntV 1, IntV 2, IntV 3]),
                          (''n_rtup_ternak_usaha_ayam'', [IntV 2, NaN, IntV 3])]).
        \<not> matched_by [''populasi''] x ''kec'') \<and>
     matched_kec [(''kec'', [IntV 1, IntV 2, IntV 3]),
                  (''n_rtup_ternak_usaha_ayam'', [IntV 2, NaN, IntV 3])]
       ''n_rtup_ternak_usaha_ayam'' = Inr [IntV 1] \<and>
     get_col (df_template st) ''populasi_ayam'' = Inr ws \<and> length ws = 3 \<and>
     ws ! 0 = StrV ''10'' \<and> ws ! 1 = StrV ''20'' \<and> ws ! 2 = StrV ''NA''"
proof -
  let ?ref = "[(''kec'', [IntV 1, IntV 2, IntV 3]),
               (''n_rtup_ternak_usaha_ayam'', [IntV 2, NaN, IntV 3])]"
  let ?der = "[(''kec'', [IntV 3, IntV 2, IntV 1]), (''populasi_ayam'', [IntV 10, IntV 20, IntV 30])]"
  let ?st = "\<lparr>df_ref_filtered = ?ref, df_derived_filtered = ?der,
      df_template = [(''kec'', [IntV 3, IntV 2, IntV 1]),
                     (''populasi_ayam'', [StrV ''10'', StrV ''20'', StrV ''NA''])]\<rparr>"
  have run: "masker ?ref ?der [''populasi''] = Inr ?st"
    by code_simp
  have h: "\<forall>x \<in> set (columns ?ref). \<not> matched_by [''populasi''] x ''kec''"
    by code_simp
  have m: "\<exists>x \<in> set (columns ?ref). matched_by [''populasi''] x ''populasi_ayam''"
    by code_simp
  have g: "get_col ?der ''populasi_ayam'' = Inr [IntV 10, IntV 20, IntV 30]"
    "get_col ?der ''kec'' = Inr [IntV 3, IntV 2, IntV 1]"
    by (simp_all add: get_col_def)
  have mk: "matched_kec ?ref ''n_rtup_ternak_usaha_ayam'' = Inr [IntV 1]"
    by code_simp
  have rm: "\<not> row_masked ?ref [''populasi''] ''populasi_ayam'' (IntV 3)"
    "\<not> row_masked ?ref [''populasi''] ''populasi_ayam'' (IntV 2)"
    "row_masked ?ref [''populasi''] ''populasi_ayam'' (IntV 1)"
    by code_simp+
  have str: "astype_str (IntV 10) = StrV ''10''" "astype_str (IntV 20) = StrV ''20''"
    by code_simp+
  from run h g m have hyp: "masker ?ref ?der [''populasi''] = Inr ?st \<and>
    (\<forall>x \<in> set (columns ?ref). \<not> matched_by [''populasi''] x ''kec'') \<and>
    get_col ?der ''populasi_ayam'' = Inr [IntV 10, IntV 20, IntV 30] \<and>
    get_col ?der ''kec'' = Inr [IntV 3, IntV 2, IntV 1] \<and>
    (\<exists>x \<in> set (columns ?ref). matched_by [''populasi''] x ''populasi_ayam'')"
    by blast
  from threshold_masks_rows [THEN conjunct2, THEN conjunct2, THEN conjunct1, THEN mp, OF hyp]
  obtain ws where ws: "get_col (df_template ?st) ''populasi_ayam'' = Inr ws"
    "length ws = length [IntV 10, IntV 20, IntV 30]"
    and cells: "\<forall>r < length [IntV 10, IntV 20, IntV 30].
       ws ! r = (if r < length [IntV 3, IntV 2, IntV 1] \<and>
                    row_masked ?ref [''populasi''] ''populasi_ayam'' ([IntV 3, IntV 2, IntV 1] ! r)
                 then StrV ''NA'' else astype_str ([IntV 10, IntV 20, IntV 30] ! r))"
    by blast
  from cells [THEN spec, of 0] cells [THEN spec, of 1] cells [THEN spec, of 2] rm str
  have "ws ! 0 = StrV ''10''" "ws ! 1 = StrV ''20''" "ws ! 2 = StrV ''NA''"
    by simp_all
  with run h mk ws show ?thesis
    by (intro exI [of _ ?st] exI [of _ ws]) simp
qed

text \<open>
  The claim as stated fails in two places. A missing reference value does not leave the
  cell untouched: the mask is empty and the derived value 10 still becomes the text
  \<^verbatim>\<open>'10'\<close>. And a row with the reference value 1 is in the mask without being
  overwritten when the \<^verbatim>\<open>kec\<close> column of the template has been turned into text by
  an earlier family column: the code \<^verbatim>\<open>'1'\<close> is then not the selected code 1.
\<close>

theorem threshold_masks_rows_counterexample:
  "matched_kec [(''kec'', [IntV 1]), (''n_rtup_ternak_usaha_ayam'', [NaN])]
     ''n_rtup_ternak_usaha_ayam'' = Inr [] \<and>
   get_col [(''kec'', [IntV 1]), (''populasi_ayam'', [IntV 10])] ''populasi_ayam'' =
     Inr [IntV 10] \<and>
   (case masker [(''kec'', [IntV 1]), (''n_rtup_ternak_usaha_ayam'', [NaN])]
           [(''kec'', [IntV 1]), (''populasi_ayam'', [IntV 10])] [''populasi''] of
      Inl e \<Rightarrow> Inl e
    | Inr st \<Rightarrow> get_col (df_template st) ''populasi_ayam'') = Inr [StrV ''10''] \<and>
   in_window [IntV 1] = Inr [True] \<and>
   (case masker [(''kec'', [IntV 1]), (''n_rtup_ternak_usaha_k'', [IntV 0]),
                 (''n_rtup_ternak_usaha_x'', [IntV 1])]
           [(''kec'', [IntV 1]), (''xe'', [IntV 7])] [''e''] of
      Inl e \<Rightarrow> Inl e
    | Inr st \<Rightarrow> get_col (df_template st) ''xe'') = Inr [StrV ''7'']"
  by code_simp

section \<open>Keywords and column names\<close>

lemma not_upper_lower_char: "\<not> is_upper (lower_char c)"
  unfolding lower_char_def is_upper_def Let_def
  by auto

lemma contains_set: "contains sub s \<Longrightarrow> set sub \<subseteq> set s"
proof (induction s)
  case Nil
  then show ?case by simp
next
  case (Cons c cs)
  from Cons.prems have "startswith (c # cs) sub \<or> contains sub cs" by simp
  then show ?case
  proof
    assume "startswith (c # cs) sub"
    then have "sub = take (length sub) (c # cs)" by (simp add: startswith_def)
    then have "set sub \<subseteq> set (c # cs)" by (metis set_take_subset)
    then show ?thesis .
  next
    assume "contains sub cs"
    with Cons.IH show ?thesis by auto
  qed
qed

lemma upper_keyword_no_match:
  assumes "\<exists>ch \<in> set keyword. is_upper ch"
  shows "\<not> contains keyword (lower c)"
proof
  assume "contains keyword (lower c)"
  then have "set keyword \<subseteq> set (lower c)" by (rule contains_set)
  with assms obtain ch where "ch \<in> set (lower c)" "is_upper ch" by auto
  then show False by (auto simp: lower_def not_upper_lower_char)
qed











text \<open>
  Claim C10. A keyword with an upper-case character is never found in the lower-cased
  name of a derived column, so no column matches through it: the matching columns are
  those found without that keyword.
\<close>

theorem uppercase_keyword_never_matches:
  assumes "\<exists>ch \<in> set keyword. is_upper ch"
  shows "\<not> contains keyword (lower c) \<and>
         matching_cols column_keywords animal cols =
           matching_cols (removeAll keyword column_keywords) animal cols"
proof
  show "\<not> contains keyword (lower c)"
    using assms by (rule upper_keyword_no_match)
  have "(\<exists>k \<in> set column_keywords. contains k (lower x)) =
        (\<exists>k \<in> set (removeAll keyword column_keywords). contains k (lower x))" for x
    using upper_keyword_no_match [OF assms, of x] by auto
  then show "matching_cols column_keywords animal cols =
           matching_cols (removeAll keyword column_keywords) animal cols"
    unfolding matching_cols_def by simp
qed

theorem uppercase_keyword_never_matches_witness:
  "(\<exists>ch \<in> set ''Populasi''. is_upper ch) \<and>
   \<not> contains ''Populasi'' (lower ''Populasi_ayam'') \<and>
   matching_cols [''Populasi''] ''ayam'' [''Populasi_ayam''] = [] \<and>
   matching_cols [''populasi''] ''ayam'' [''Populasi_ayam''] = [''Populasi_ayam'']"
proof -
  have h: "\<exists>ch \<in> set ''Populasi''. is_upper ch"
    by (simp add: is_upper_def)
  have low: "matching_cols [''populasi''] ''ayam'' [''Populasi_ayam''] = [''Populasi_ayam'']"
    by code_simp
  have none: "matching_cols [] ''ayam'' [''Populasi_ayam''] = []"
    by (simp add: matching_cols_def)
  from uppercase_keyword_never_matches [OF h, of "''Populasi_ayam''" "[''Populasi'']" "''ayam''" "[''Populasi_ayam'']"]
  show ?thesis using h low none by simp
qed

section \<open>A run without keywords\<close>

lemma matching_cols_no_keywords: "matching_cols [] animal cols = []"
  by (simp add: matching_cols_def)

lemma apply_rule_no_keywords: "apply_rule [] cols st = Inr st"
  by (induction cols) (simp_all add: matching_cols_no_keywords)

text \<open>
  Claim C7. With an empty keyword list no derived column matches any family column, the
  masking pass returns without an error and leaves the template equal to the filtered
  derived table, and the whole run fails only where the filtering and the naming of the
  workbook fail; when it succeeds, the sheets \<open>template\<close> and \<open>riil\<close> are the same
  table.
\<close>

theorem empty_keywords_noop:
  "matching_cols [] animal cols = [] \<and>
   masker ref_filtered derived_filtered [] =
     Inr \<lparr>df_ref_filtered = ref_filtered, df_derived_filtered = derived_filtered,
          df_template = derived_filtered\<rparr> \<and>
   process_excel_data df_ref df_derived out_file kab_code [] =
     (case filter_kab df_ref kab_code of
        Inl e \<Rightarrow> Inl e
      | Inr ref_rows \<Rightarrow>
          (case get_kabupaten_name df_ref kab_code of
             Inl e \<Rightarrow> Inl e
           | Inr kab_name \<Rightarrow>
               (case filter_kab df_derived kab_code of
                  Inl e \<Rightarrow> Inl e
                | Inr derived_rows \<Rightarrow>
                    Inr \<lparr>output_file =
                           replace_str ''.xlsx'' (''_'' @ upper kab_name @ ''.xlsx'') out_file,
                         acuan = ref_rows, riil = derived_rows, template = derived_rows\<rparr>)))"
  by (simp add: matching_cols_no_keywords masker_def apply_rule_no_keywords
      process_excel_data_def split: sum.splits)

theorem empty_keywords_noop_witness:
  "process_excel_data
     [(''kab'', [IntV 7205, IntV 7206]), (''kec'', [IntV 10, IntV 20]),
      (''id_kab'', [StrV ''[7205] Banggai'', StrV ''[7206] Morowali'']),
      (''n_rtup_ternak_usaha_ayam'', [IntV 1, IntV 1])]
     [(''kab'', [IntV 7205, IntV 7206]), (''kec'', [IntV 10, IntV 20]),
      (''rerata_ayam'', [IntV 5, IntV 6])]
     ''PROCESSED_t.xlsx'' 7205 [] =
   Inr \<lparr>output_file = ''PROCESSED_t_BANGGAI.xlsx'',
        acuan = [(''kab'', [IntV 7205]), (''kec'', [IntV 10]),
                 (''id_kab'', [StrV ''[7205] Banggai'']),
                 (''n_rtup_ternak_usaha_ayam'', [IntV 1])],
        riil = [(''kab'', [IntV 7205]), (''kec'', [IntV 10]), (''rerata_ayam'', [IntV 5])],
        template = [(''kab'', [IntV 7205]), (''kec'', [IntV 10]), (''rerata_ayam'', [IntV 5])]\<rparr>"
proof -
  have f1: "filter_kab
     [(''kab'', [IntV 7205, IntV 7206]), (''kec'', [IntV 10, IntV 20]),
      (''id_kab'', [StrV ''[7205] Banggai'', StrV ''[7206] Morowali'']),
      (''n_rtup_ternak_usaha_ayam'', [IntV 1, IntV 1])] 7205 =
     Inr [(''kab'', [IntV 7205]), (''kec'', [IntV 10]),
                 (''id_kab'', [StrV ''[7205] Banggai'']),
                 (''n_rtup_ternak_usaha_ayam'', [IntV 1])]"
    by code_simp
  have f2: "filter_kab
     [(''kab'', [IntV 7205, IntV 7206]), (''kec'', [IntV 10, IntV 20]),
      (''rerata_ayam'', [IntV 5, IntV 6])] 7205 =
     Inr [(''kab'', [IntV 7205]), (''kec'', [IntV 10]), (''rerata_ayam'', [IntV 5])]"
    by code_simp
  have f3: "get_kabupaten_name
     [(''kab'', [IntV 7205, IntV 7206]), (''kec'', [IntV 10, IntV 20]),
      (''id_kab'', [StrV ''[7205] Banggai'', StrV ''[7206] Morowali'']),
      (''n_rtup_ternak_usaha_ayam'', [IntV 1, IntV 1])] 7205 = Inr ''Banggai''"
    by code_simp
  have f4: "replace_str ''.xlsx'' (''_'' @ upper ''Banggai'' @ ''.xlsx'') ''PROCESSED_t.xlsx'' =
     ''PROCESSED_t_BANGGAI.xlsx''"
    by code_simp
  show ?thesis
    using empty_keywords_noop [where df_ref =
     "[(''kab'', [IntV 7205, IntV 7206]), (''kec'', [IntV 10, IntV 20]),
      (''id_kab'', [StrV ''[7205] Banggai'', StrV ''[7206] Morowali'']),
      (''n_rtup_ternak_usaha_ayam'', [IntV 1, IntV 1])]" and kab_code = 7205 and df_derived =
     "[(''kab'', [IntV 7205, IntV 7206]), (''kec'', [IntV 10, IntV 20]),
      (''rerata_ayam'', [IntV 5, IntV 6])]" and out_file = "''PROCESSED_t.xlsx''",
      THEN conjunct2, THEN conjunct2]
    unfolding f1 f2 f3 by (simp only: sum.case f4)
qed

section \<open>The scenario of the specification\<close>

text \<open>
  Claim C4, as amended. Reference column \<^verbatim>\<open>n_rtup_ternak_usaha_ayam_kampung\<close> with the
  values 0, 1, 2, 5 over the sub-regions A to D, derived column
  \<^verbatim>\<open>populasi_ayam_kampung\<close> with the values 10, 20, 30, 40 and the keyword
  \<^verbatim>\<open>populasi\<close>: the template column holds the texts \<^verbatim>\<open>'10'\<close>, \<^verbatim>\<open>'NA'\<close>,
  \<^verbatim>\<open>'NA'\<close>, \<^verbatim>\<open>'40'\<close>. Line 123 turns the whole column into text before the
  sentinel is written, so the cells that are not masked hold the text of their number,
  not the number 10 or 40.
\<close>

theorem scenario_template_text:
  "(case masker
      [(''kec'', [StrV ''A'', StrV ''B'', StrV ''C'', StrV ''D'']),
       (''n_rtup_ternak_usaha_ayam_kampung'', [IntV 0, IntV 1, IntV 2, IntV 5])]
      [(''kec'', [StrV ''A'', StrV ''B'', StrV ''C'', StrV ''D'']),
       (''populasi_ayam_kampung'', [IntV 10, IntV 20, IntV 30, IntV 40])]
      [''populasi''] of
      Inl e \<Rightarrow> Inl e
    | Inr st \<Rightarrow> get_col (df_template st) ''populasi_ayam_kampung'') =
   Inr [StrV ''10'', StrV ''NA'', StrV ''NA'', StrV ''40'']"
  by code_simp

theorem scenario_template_counterexample:
  "(case masker
      [(''kec'', [StrV ''A'', StrV ''B'', StrV ''C'', StrV ''D'']),
       (''n_rtup_ternak_usaha_ayam_kampung'', [IntV 0, IntV 1, IntV 2, IntV 5])]
      [(''kec'', [StrV ''A'', StrV ''B'', StrV ''C'', StrV ''D'']),
       (''populasi_ayam_kampung'', [IntV 10, IntV 20, IntV 30, IntV 40])]
      [''populasi''] of
      Inl e \<Rightarrow> Inl e
    | Inr st \<Rightarrow> get_col (df_template st) ''populasi_ayam_kampung'') \<noteq>
   Inr [IntV 10, StrV ''NA'', StrV ''NA'', IntV 40]"
  by code_simp

section \<open>A region without reference rows\<close>

lemma select_rows_all_False:
  "\<forall>b \<in> set m. \<not> b \<Longrightarrow> select_rows m vs = []"
  unfolding select_rows_def
  by (auto simp: filter_empty_conv dest: set_zip_leftD)

text \<open>
  Claim C3. The claim says that a region code without rows does not make the run fail.
  In the code, when the reference sheet has a \<^verbatim>\<open>kab\<close> column and none of its rows
  carries the region code, \<^verbatim>\<open>get_kabupaten_name\<close> takes \<^verbatim>\<open>.iloc[0]\<close> of the empty
  selection and the run ends with IndexError, before any sheet is written.
\<close>

theorem no_reference_row_fails:
  assumes "get_col df_ref ''kab'' = Inr ks" and "IntV kab_code \<notin> set ks"
  shows "process_excel_data df_ref df_derived out_file kab_code column_keywords = Inl IndexError"
proof -
  let ?m = "map (\<lambda>k. k = IntV kab_code) ks"
  let ?rows = "map (\<lambda>(n, vs). (n, select_rows ?m vs)) df_ref"
  have none: "\<forall>b \<in> set ?m. \<not> b"
    using assms(2) by auto
  have filt: "filter_kab df_ref kab_code = Inr ?rows"
    using assms(1) by (simp add: filter_kab_def)
  have "nrows ?rows = 0"
    by (cases df_ref) (auto simp: nrows_def select_rows_all_False [OF none])
  then have "iloc0 ?rows = Inl IndexError"
    by (simp add: iloc0_def)
  then have "get_kabupaten_name df_ref kab_code = Inl IndexError"
    by (simp add: get_kabupaten_name_def filt)
  then show ?thesis
    by (simp add: process_excel_data_def filt)
qed

theorem no_reference_row_fails_witness:
  "get_col [(''kab'', [IntV 7206]), (''kec'', [IntV 10]), (''id_kab'', [StrV ''[7206] Morowali''])]
     ''kab'' = Inr [IntV 7206] \<and>
   IntV 7205 \<notin> set [IntV 7206] \<and>
   process_excel_data
     [(''kab'', [IntV 7206]), (''kec'', [IntV 10]), (''id_kab'', [StrV ''[7206] Morowali''])]
     [(''kab'', [IntV 7206]), (''kec'', [IntV 10])] ''PROCESSED_t.xlsx'' 7205 [''rerata''] =
   Inl IndexError"
proof -
  have h1: "get_col [(''kab'', [IntV 7206]), (''kec'', [IntV 10]),
      (''id_kab'', [StrV ''[7206] Morowali''])] ''kab'' = Inr [IntV 7206]"
    by (simp add: get_col_def)
  have h2: "IntV 7205 \<notin> set [IntV 7206]" by simp
  from no_reference_row_fails [OF h1 h2] h1 h2 show ?thesis by simp
qed

section \<open>What the masking pass may change\<close>





section \<open>Coercion of the matched columns\<close>

text \<open>
  Claim C2, as amended. Every derived column that matches a family column is turned into
  text by line 123, whether or not its mask selects a row: after the pass each of its
  cells is the sentinel or the text of the original cell. A column that matches no family
  column is the column of \<open>riil\<close>, cell for cell.
\<close>

theorem matched_columns_always_coerced:
  assumes "masker ref_filtered derived_filtered column_keywords = Inr st"
    and "get_col derived_filtered c = Inr vs"
  shows "((\<exists>col \<in> set (columns ref_filtered). matched_by column_keywords col c) \<longrightarrow>
            (\<exists>ws. get_col (df_template st) c = Inr ws \<and> length ws = length vs \<and>
               (\<forall>r < length vs. ws ! r = StrV ''NA'' \<or> ws ! r = astype_str (vs ! r)))) \<and>
         ((\<forall>col \<in> set (columns ref_filtered). \<not> matched_by column_keywords col c) \<longrightarrow>
            get_col (df_template st) c = Inr vs)"
proof (intro conjI impI)
  assume "\<exists>col \<in> set (columns ref_filtered). matched_by column_keywords col c"
  then obtain col where "col \<in> set (columns ref_filtered)" "matched_by column_keywords col c"
    by blast
  with assms show "\<exists>ws. get_col (df_template st) c = Inr ws \<and> length ws = length vs \<and>
               (\<forall>r < length vs. ws ! r = StrV ''NA'' \<or> ws ! r = astype_str (vs ! r))"
    using matched_column_coerced [of ref_filtered derived_filtered column_keywords st c vs col]
    by (simp add: get_col_Inr)
next
  assume "\<forall>col \<in> set (columns ref_filtered). \<not> matched_by column_keywords col c"
  with assms show "get_col (df_template st) c = Inr vs"
    using unmatched_column_unchanged [of ref_filtered derived_filtered column_keywords st c]
    by (simp add: get_col_Inr)
qed

theorem matched_columns_always_coerced_witness:
  "\<exists>st.
     masker [(''kec'', [StrV ''A'']), (''n_rtup_ternak_usaha_ayam'', [IntV 0])]
       [(''kec'', [StrV ''A'']), (''populasi_ayam'', [IntV 10])] [''populasi''] = Inr st \<and>
     get_col [(''kec'', [StrV ''A'']), (''populasi_ayam'', [IntV 10])] ''populasi_ayam'' =
       Inr [IntV 10] \<and>
     (\<exists>col \<in> set (columns [(''kec'', [StrV ''A'']), (''n_rtup_ternak_usaha_ayam'', [IntV 0])]).
        matched_by [''populasi''] col ''populasi_ayam'') \<and>
     (\<exists>ws. get_col (df_template st) ''populasi_ayam'' = Inr ws \<and> length ws = length [IntV 10] \<and>
        (\<forall>r < length [IntV 10]. ws ! r = StrV ''NA'' \<or> ws ! r = astype_str ([IntV 10] ! r)))"
proof -
  let ?ref = "[(''kec'', [StrV ''A'']), (''n_rtup_ternak_usaha_ayam'', [IntV 0])]"
  let ?der = "[(''kec'', [StrV ''A'']), (''populasi_ayam'', [IntV 10])]"
  have run: "masker ?ref ?der [''populasi''] =
      Inr \<lparr>df_ref_filtered = ?ref, df_derived_filtered = ?der,
           df_template = [(''kec'', [StrV ''A'']), (''populasi_ayam'', [StrV ''10''])]\<rparr>"
    by code_simp
  have g: "get_col ?der ''populasi_ayam'' = Inr [IntV 10]"
    by (simp add: get_col_def)
  have m: "\<exists>col \<in> set (columns ?ref). matched_by [''populasi''] col ''populasi_ayam''"
    by code_simp
  from matched_columns_always_coerced [OF run g, THEN conjunct1, THEN mp, OF m] run g m
  show ?thesis by blast
qed

text \<open>
  The claim as stated fails on a matched column whose mask selects no row: the reference
  value 0 masks nothing, and the derived value 10 still becomes the text \<^verbatim>\<open>'10'\<close>.
\<close>

theorem eager_coercion_counterexample:
  "matched_kec [(''kec'', [StrV ''A'']), (''n_rtup_ternak_usaha_ayam'', [IntV 0])]
     ''n_rtup_ternak_usaha_ayam'' = Inr [] \<and>
   get_col [(''kec'', [StrV ''A'']), (''populasi_ayam'', [IntV 10])] ''populasi_ayam'' =
     Inr [IntV 10] \<and>
   (case masker [(''kec'', [StrV ''A'']), (''n_rtup_ternak_usaha_ayam'', [IntV 0])]
           [(''kec'', [StrV ''A'']), (''populasi_ayam'', [IntV 10])] [''populasi''] of
      Inl e \<Rightarrow> Inl e
    | Inr st \<Rightarrow> get_col (df_template st) ''populasi_ayam'') = Inr [StrV ''10'']"
  by code_simp

section \<open>Running the masking pass again\<close>

text \<open>
  Claim C5, as amended. When the derived table's own \<^verbatim>\<open>kec\<close> column is not a
  matching column of any family column, the masking pass is idempotent: run on the
  template it has produced, with the same reference table and keywords, it succeeds and
  returns that template again.
\<close>

theorem masker_idempotent_kec_unmatched:
  assumes "masker ref_filtered derived_filtered column_keywords = Inr st1"
    and "\<forall>col \<in> set (columns ref_filtered). \<not> matched_by column_keywords col ''kec''"
  shows "\<exists>st2. masker ref_filtered (df_template st1) column_keywords = Inr st2 \<and>
           df_template st2 = df_template st1"
  using masker_idempotent [OF assms] by simp

theorem masker_idempotent_kec_unmatched_witness:
  "\<exists>st1 st2.
     masker
       [(''kec'', [StrV ''A'', StrV ''B'', StrV ''C'', StrV ''D'']),
        (''n_rtup_ternak_usaha_ayam_kampung'', [IntV 0, IntV 1, IntV 2, IntV 5])]
       [(''kec'', [StrV ''A'', StrV ''B'', StrV ''C'', StrV ''D'']),
        (''populasi_ayam_kampung'', [IntV 10, IntV 20, IntV 30, IntV 40])]
       [''populasi''] = Inr st1 \<and>
     (\<forall>col \<in> set (columns
         [(''kec'', [StrV ''A'', StrV ''B'', StrV ''C'', StrV ''D'']),
          (''n_rtup_ternak_usaha_ayam_kampung'', [IntV 0, IntV 1, IntV 2, IntV 5])]).
        \<not> matched_by [''populasi''] col ''kec'') \<and>
     masker
       [(''kec'', [StrV ''A'', StrV ''B'', StrV ''C'', StrV ''D'']),
        (''n_rtup_ternak_usaha_ayam_kampung'', [IntV 0, IntV 1, IntV 2, IntV 5])]
       (df_template st1) [''populasi''] = Inr st2 \<and>
     df_template st2 = df_template st1 \<and>
     df_template st1 =
       [(''kec'', [StrV ''A'', StrV ''B'', StrV ''C'', StrV ''D'']),
        (''populasi_ayam_kampung'', [StrV ''10'', StrV ''NA'', StrV ''NA'', StrV ''40''])]"
proof -
  let ?ref = "[(''kec'', [StrV ''A'', StrV ''B'', StrV ''C'', StrV ''D'']),
        (''n_rtup_ternak_usaha_ayam_kampung'', [IntV 0, IntV 1, IntV 2, IntV 5])]"
  let ?der = "[(''kec'', [StrV ''A'', StrV ''B'', StrV ''C'', StrV ''D'']),
        (''populasi_ayam_kampung'', [IntV 10, IntV 20, IntV 30, IntV 40])]"
  let ?tmpl = "[(''kec'', [StrV ''A'', StrV ''B'', StrV ''C'', StrV ''D'']),
        (''populasi_ayam_kampung'', [StrV ''10'', StrV ''NA'', StrV ''NA'', StrV ''40''])]"
  let ?st1 = "\<lparr>df_ref_filtered = ?ref, df_derived_filtered = ?der, df_template = ?tmpl\<rparr>"
  have run: "masker ?ref ?der [''populasi''] = Inr ?st1"
    by code_simp
  have h: "\<forall>col \<in> set (columns ?ref). \<not> matched_by [''populasi''] col ''kec''"
    by code_simp
  from masker_idempotent_kec_unmatched [OF run h] obtain st2 where
    "masker ?ref (df_template ?st1) [''populasi''] = Inr st2" "df_template st2 = df_template ?st1"
    by blast
  with run h show ?thesis
    by (intro exI [of _ ?st1] exI [of _ st2]) simp
qed

text \<open>
  Without that condition the claim fails. The keyword \<^verbatim>\<open>e\<close> and the family column
  with animal token \<^verbatim>\<open>k\<close> make \<^verbatim>\<open>kec\<close> itself a matching column, so the first
  pass turns the code 1 of the derived table into the text \<^verbatim>\<open>'1'\<close>, after the column
  \<^verbatim>\<open>xe\<close> was compared with the number 1 and left alone. The reference table holds
  the code as the text \<^verbatim>\<open>'1'\<close>, so the second pass finds the row and writes the
  sentinel that the first pass did not write.
\<close>

theorem masker_idempotent_counterexample:
  "masker
     [(''kec'', [StrV ''1'']), (''n_rtup_ternak_usaha_x'', [IntV 1]),
      (''n_rtup_ternak_usaha_k'', [IntV 0])]
     [(''kec'', [IntV 1]), (''xe'', [IntV 10])] [''e''] =
   Inr \<lparr>df_ref_filtered =
          [(''kec'', [StrV ''1'']), (''n_rtup_ternak_usaha_x'', [IntV 1]),
           (''n_rtup_ternak_usaha_k'', [IntV 0])],
        df_derived_filtered = [(''kec'', [IntV 1]), (''xe'', [IntV 10])],
        df_template = [(''kec'', [StrV ''1'']), (''xe'', [StrV ''10''])]\<rparr> \<and>
   masker
     [(''kec'', [StrV ''1'']), (''n_rtup_ternak_usaha_x'', [IntV 1]),
      (''n_rtup_ternak_usaha_k'', [IntV 0])]
     [(''kec'', [StrV ''1'']), (''xe'', [StrV ''10''])] [''e''] =
   Inr \<lparr>df_ref_filtered =
          [(''kec'', [StrV ''1'']), (''n_rtup_ternak_usaha_x'', [IntV 1]),
           (''n_rtup_ternak_usaha_k'', [IntV 0])],
        df_derived_filtered = [(''kec'', [StrV ''1'']), (''xe'', [StrV ''10''])],
        df_template = [(''kec'', [StrV ''1'']), (''xe'', [StrV ''NA''])]\<rparr> \<and>
   [(''kec'', [StrV ''1'']), (''xe'', [StrV ''NA''])] \<noteq>
   [(''kec'', [StrV ''1'']), (''xe'', [StrV ''10''])]"
  by code_simp

section \<open>The region label\<close>

lemma find_close_code:
  "CHR '']'' \<notin> set code \<Longrightarrow> CHR 0x0A \<notin> set code \<Longrightarrow>
   find_close (code @ CHR '']'' # rest) = Some rest"
  by (induction code) auto

lemma sub_brackets_none: "CHR ''['' \<notin> set s \<Longrightarrow> sub_brackets s = s"
  by (induction s) auto

lemma sub_brackets_prefix:
  assumes "CHR '']'' \<notin> set code" and "CHR 0x0A \<notin> set code" and "CHR ''['' \<notin> set rest"
  shows "sub_brackets (CHR ''['' # code @ CHR '']'' # rest) = dropWhile is_space rest"
proof -
  have "CHR ''['' \<notin> set (dropWhile is_space rest)"
    using assms(3) by (auto dest: set_dropWhileD)
  then show ?thesis
    using assms(1,2) by (simp add: find_close_code sub_brackets_none)
qed

lemma sub_brackets_suffix:
  assumes "CHR ''['' \<notin> set pre" and "CHR '']'' \<notin> set code" and "CHR 0x0A \<notin> set code"
  shows "sub_brackets (pre @ CHR ''['' # code @ [CHR '']'']) = pre"
proof -
  have "sub_brackets (CHR ''['' # code @ [CHR '']'']) = []"
    using sub_brackets_prefix [OF assms(2,3), of "[]"] by simp
  moreover have "sub_brackets (pre @ t) = pre @ sub_brackets t" for t
    using assms(1) by (induction pre) auto
  ultimately show ?thesis by simp
qed

lemma strip_dropWhile: "strip (dropWhile is_space s) = strip s"
  by (simp add: strip_def)

lemma sub_nonword_word: "\<forall>c \<in> set (sub_nonword s). is_word c"
  by (induction s rule: sub_nonword.induct) (auto simp: is_word_def)

lemma sub_nonword_word_run:
  "list_all is_word w \<Longrightarrow> sub_nonword (w @ s) = w @ sub_nonword s"
  by (induction w) auto

lemma sub_nonword_other_run:
  assumes "n \<noteq> []" and "list_all (\<lambda>c. \<not> is_word c) n" and "s = [] \<or> is_word (hd s)"
  shows "sub_nonword (n @ s) = CHR ''_'' # sub_nonword s"
proof -
  from assms(1) obtain c n' where n: "n = c # n'" by (cases n) auto
  with assms(2) have c: "\<not> is_word c" and n': "\<forall>x \<in> set n'. \<not> is_word x"
    by (auto simp: list_all_iff)
  from n' have "dropWhile (\<lambda>x. \<not> is_word x) (n' @ s) = dropWhile (\<lambda>x. \<not> is_word x) s"
    by (simp add: dropWhile_append)
  also from assms(3) have "\<dots> = s"
    by (cases s) auto
  finally show ?thesis
    using c by (simp add: n)
qed

text \<open>
  Claim C9, as amended. \<^verbatim>\<open>get_kabupaten_name\<close> removes a bracketed token in front of
  the label, with the whitespace after it, or at its end, trims whitespace, and replaces
  each maximal run of characters that are neither letters, digits nor underscores with a
  single underscore; letters, digits and underscores stay as they are, and the result
  has no other character. The label \<^verbatim>\<open>[7205] Kota Bandung\<close> becomes
  \<^verbatim>\<open>Kota_Bandung\<close>, and the file name carries \<^verbatim>\<open>KOTA_BANDUNG\<close>.
\<close>

theorem region_label_normalization:
  "(CHR '']'' \<notin> set code \<and> CHR 0x0A \<notin> set code \<and> CHR ''['' \<notin> set rest \<longrightarrow>
      clean_name (CHR ''['' # code @ CHR '']'' # rest) = sub_nonword (strip rest)) \<and>
   (CHR ''['' \<notin> set pre \<and> CHR '']'' \<notin> set code \<and> CHR 0x0A \<notin> set code \<longrightarrow>
      clean_name (pre @ CHR ''['' # code @ [CHR '']'']) = sub_nonword (strip pre)) \<and>
   (list_all is_word w \<longrightarrow> sub_nonword (w @ s) = w @ sub_nonword s) \<and>
   (n \<noteq> [] \<and> list_all (\<lambda>c. \<not> is_word c) n \<and> (s = [] \<or> is_word (hd s)) \<longrightarrow>
      sub_nonword (n @ s) = CHR ''_'' # sub_nonword s) \<and>
   (\<forall>c \<in> set (clean_name full_name). is_alnum c \<or> c = CHR ''_'') \<and>
   clean_name ''[7205] Kota Bandung'' = ''Kota_Bandung'' \<and>
   replace_str ''.xlsx'' (''_'' @ upper (clean_name ''[7205] Kota Bandung'') @ ''.xlsx'')
     ''PROCESSED_t.xlsx'' = ''PROCESSED_t_KOTA_BANDUNG.xlsx''"
proof (intro conjI impI)
  assume "CHR '']'' \<notin> set code \<and> CHR 0x0A \<notin> set code \<and> CHR ''['' \<notin> set rest"
  then have "sub_brackets (CHR ''['' # code @ CHR '']'' # rest) = dropWhile is_space rest"
    by (intro sub_brackets_prefix) simp_all
  then show "clean_name (CHR ''['' # code @ CHR '']'' # rest) = sub_nonword (strip rest)"
    by (simp only: clean_name_def strip_dropWhile)
next
  assume "CHR ''['' \<notin> set pre \<and> CHR '']'' \<notin> set code \<and> CHR 0x0A \<notin> set code"
  then have "sub_brackets (pre @ CHR ''['' # code @ [CHR '']'']) = pre"
    by (intro sub_brackets_suffix) simp_all
  then show "clean_name (pre @ CHR ''['' # code @ [CHR '']'']) = sub_nonword (strip pre)"
    by (simp only: clean_name_def)
next
  assume "list_all is_word w"
  then show "sub_nonword (w @ s) = w @ sub_nonword s"
    by (rule sub_nonword_word_run)
next
  assume "n \<noteq> [] \<and> list_all (\<lambda>c. \<not> is_word c) n \<and> (s = [] \<or> is_word (hd s))"
  then show "sub_nonword (n @ s) = CHR ''_'' # sub_nonword s"
    by (simp add: sub_nonword_other_run)
next
  show "\<forall>c \<in> set (clean_name full_name). is_alnum c \<or> c = CHR ''_''"
    using sub_nonword_word [of "strip (sub_brackets full_name)"]
    by (simp add: clean_name_def is_word_def)
next
  show "clean_name ''[7205] Kota Bandung'' = ''Kota_Bandung''"
    by code_simp
next
  show "replace_str ''.xlsx'' (''_'' @ upper (clean_name ''[7205] Kota Bandung'') @ ''.xlsx'')
     ''PROCESSED_t.xlsx'' = ''PROCESSED_t_KOTA_BANDUNG.xlsx''"
    by code_simp
qed

theorem region_label_normalization_witness:
  "(CHR '']'' \<notin> set ''7205'' \<and> CHR 0x0A \<notin> set ''7205'' \<and> CHR ''['' \<notin> set '' Kota Bandung '') \<and>
   clean_name (CHR ''['' # ''7205'' @ CHR '']'' # '' Kota Bandung '') = sub_nonword ''Kota Bandung'' \<and>
   list_all is_word ''Kota'' \<and>
   sub_nonword (''Kota'' @ '' Bandung'') = ''Kota'' @ sub_nonword '' Bandung'' \<and>
   list_all (\<lambda>c. \<not> is_word c) '' ,'' \<and> is_word (hd ''Bandung'') \<and>
   sub_nonword ('' ,'' @ ''Bandung'') = CHR ''_'' # sub_nonword ''Bandung''"
proof -
  have h1: "CHR '']'' \<notin> set ''7205'' \<and> CHR 0x0A \<notin> set ''7205'' \<and>
      CHR ''['' \<notin> set '' Kota Bandung ''"
    by simp
  have st: "strip '' Kota Bandung '' = ''Kota Bandung''"
    by code_simp
  have h2: "list_all is_word ''Kota''"
    by code_simp
  have h3: "'' ,'' \<noteq> [] \<and> list_all (\<lambda>c. \<not> is_word c) '' ,'' \<and>
      (''Bandung'' = [] \<or> is_word (hd ''Bandung''))"
    by code_simp
  note t1 = region_label_normalization [where code = "''7205''" and rest = "'' Kota Bandung ''",
      THEN conjunct1, THEN mp, OF h1]
  note t2 = region_label_normalization [where w = "''Kota''" and s = "'' Bandung''",
      THEN conjunct2, THEN conjunct2, THEN conjunct1, THEN mp, OF h2]
  note t3 = region_label_normalization [where n = "'' ,''" and s = "''Bandung''",
      THEN conjunct2, THEN conjunct2, THEN conjunct2, THEN conjunct1, THEN mp, OF h3]
  from h1 h2 h3 t1 t2 t3 show ?thesis
    unfolding st by simp
qed

text \<open>
  The claim as stated, with every run of non-alphanumeric characters replaced with one
  underscore, fails where the label holds an underscore: the pattern \<^verbatim>\<open>\W+\<close> takes an
  underscore for a word character, so a run with underscores in it keeps them.
\<close>

theorem region_label_normalization_counterexample:
  "clean_name ''A__B'' = ''A__B'' \<and> spec_normalize ''A__B'' = ''A_B'' \<and>
   clean_name ''Kab_ Banggai'' = ''Kab__Banggai'' \<and>
   spec_normalize ''Kab_ Banggai'' = ''Kab_Banggai''"
  by code_simp

end
